theory Spec2Isabelle
  imports Main "HOL-Library.AList"
begin

section \<open>JavaScript strings\<close>

text \<open>
  Strings are lists of 8-bit characters: the code units 0..255 of a JavaScript string.
  Case folding and white space are those of \<^verbatim>\<open>String.prototype.toLowerCase\<close> and
  \<^verbatim>\<open>String.prototype.trim\<close> on that range.
\<close>

definition toLowerChar :: "char \<Rightarrow> char" where
  "toLowerChar c =
     (let n = (of_char c :: nat)
      in if (65 \<le> n \<and> n \<le> 90) \<or> (192 \<le> n \<and> n \<le> 214) \<or> (216 \<le> n \<and> n \<le> 222)
         then char_of (n + 32) else c)"

definition toLowerCase :: "string \<Rightarrow> string" where
  "toLowerCase s = map toLowerChar s"

definition isWhiteSpace :: "char \<Rightarrow> bool" where
  "isWhiteSpace c = ((of_char c :: nat) \<in> {9, 10, 11, 12, 13, 32, 160})"

definition trim :: "string \<Rightarrow> string" where
  "trim s = rev (dropWhile isWhiteSpace (rev (dropWhile isWhiteSpace s)))"

definition startsWith :: "string \<Rightarrow> string \<Rightarrow> bool" where
  "startsWith s p = (take (length p) s = p)"

definition endsWith :: "string \<Rightarrow> string \<Rightarrow> bool" where
  "endsWith s p = (length p \<le> length s \<and> drop (length s - length p) s = p)"

text \<open>\<^verbatim>\<open>s.substring(0, n)\<close>: a negative end is clamped to 0, a large one to the length.\<close>

definition substring0 :: "string \<Rightarrow> int \<Rightarrow> string" where
  "substring0 s n = take (nat n) s"

text \<open>\<^verbatim>\<open>s.split(sep)\<close> for a one-character separator: never the empty list.\<close>

fun split :: "char \<Rightarrow> string \<Rightarrow> string list" where
  "split sep [] = [[]]"
| "split sep (c # cs) =
     (if c = sep then [] # split sep cs
      else (case split sep cs of
              [] \<Rightarrow> [[c]]
            | p # ps \<Rightarrow> (c # p) # ps))"

fun join :: "string \<Rightarrow> string list \<Rightarrow> string" where
  "join sep [] = []"
| "join sep [p] = p"
| "join sep (p # q # ps) = p @ sep @ join sep (q # ps)"

section \<open>Values exported to the compiler\<close>

datatype js_value =
    JUndefined
  | JString string
  | JNumber nat
  | JArray "js_value list"
  | JObject "(string \<times> js_value) list"

record PageHeading =
  heading_text :: string
  heading_id :: string
  heading_level :: nat

record PageBreadcrumb =
  crumb_text :: string
  crumb_href :: string

definition heading_value :: "PageHeading \<Rightarrow> js_value" where
  "heading_value h =
     JObject [(''text'', JString (heading_text h)), (''id'', JString (heading_id h)),
              (''level'', JNumber (heading_level h))]"

definition breadcrumb_value :: "PageBreadcrumb \<Rightarrow> js_value" where
  "breadcrumb_value b =
     JObject [(''text'', JString (crumb_text b)), (''href'', JString (crumb_href b))]"

section \<open>The document tree\<close>

datatype prop_value =
    PNull
  | PBool bool
  | PNum int
  | PStr string
  | PList "string list"

text \<open>
  A property that is absent and one that holds \<^verbatim>\<open>undefined\<close> read the same everywhere in
  this module, so \<^verbatim>\<open>undefined\<close> is the key missing from the association list.
\<close>

type_synonym properties = "(string \<times> prop_value) list"

datatype node =
    Element string "properties option" "node list"
  | Text string
  | Literal string string
  | Parent string "node list"
  | MdxjsEsm string js_value

text \<open>
  \<open>Element tagName props children\<close> is an element; its properties object may be missing.
  \<open>Literal ty v\<close> is a node of type \<open>ty\<close> other than text that has a value and no
  children (a comment, raw markup, an expression); \<open>Parent ty ns\<close> is a node with children
  that is not an element; \<open>MdxjsEsm name v\<close> is the synthetic binding
  \<^verbatim>\<open>export const name = v\<close>.
\<close>

datatype root = Root (root_children: "node list")

section \<open>The build context\<close>

datatype menu_item =
  MenuItem (item_text: string) (item_href: string) (item_items: "menu_item list option")

record menu =
  menu_pathname :: string
  menu_items :: "menu_item list option"

record page_route =
  route_pathname :: string
  route_attributes :: "(string \<times> string) list option"

record build_context =
  routes :: "page_route list"
  menus :: "menu list"

section \<open>Export Injector\<close>

text \<open>
  The binding's initialiser is kept as the value itself; the expression tree that
  \<^verbatim>\<open>valueToEstree\<close> builds from it is the compiler's concern.
\<close>

definition createExport :: "root \<Rightarrow> string \<Rightarrow> js_value \<Rightarrow> root" where
  "createExport mdast identifierName val =
     Root (MdxjsEsm identifierName val # root_children mdast)"

section \<open>Sibling-Index Resolver\<close>

function getMenuPathname_from :: "build_context \<Rightarrow> nat \<Rightarrow> string \<Rightarrow> string option" where
  "getMenuPathname_from ctx i pathname =
     (if i < 9 then
        (case find (\<lambda>m. menu_pathname m = pathname) (menus ctx) of
           Some index \<Rightarrow> Some pathname
         | None \<Rightarrow>
             (let parts = split CHR ''/'' pathname;
                  parts = butlast parts;
                  pathname = join ''/'' parts
              in if pathname = ''/'' then None
                 else getMenuPathname_from ctx (i + 1) pathname))
      else None)"
  by pat_completeness auto
termination
  by (relation "measure (\<lambda>(ctx, i, pathname). 9 - i)") auto

declare getMenuPathname_from.simps [simp del]

definition getMenuPathname :: "build_context \<Rightarrow> string \<Rightarrow> string option" where
  "getMenuPathname ctx pathname = getMenuPathname_from ctx 0 pathname"

definition path_value :: "string option \<Rightarrow> js_value" where
  "path_value p = (case p of None \<Rightarrow> JUndefined | Some s \<Rightarrow> JString s)"

definition exportPageIndex :: "build_context \<Rightarrow> root \<Rightarrow> string option \<Rightarrow> root" where
  "exportPageIndex ctx mdast indexPathname =
     createExport mdast ''index'' (JObject [(''path'', path_value indexPathname)])"

section \<open>Attribute Lookup\<close>

definition attributes_value :: "(string \<times> string) list \<Rightarrow> js_value" where
  "attributes_value kvs = JObject (map (\<lambda>(k, v). (k, JString v)) kvs)"

definition exportPageAttributes :: "build_context \<Rightarrow> root \<Rightarrow> string \<Rightarrow> root" where
  "exportPageAttributes ctx mdast pathname =
     (let page = find (\<lambda>p. route_pathname p = pathname) (routes ctx);
          attributes = (case page of
                          None \<Rightarrow> []
                        | Some p \<Rightarrow> (case route_attributes p of None \<Rightarrow> [] | Some kvs \<Rightarrow> kvs))
      in createExport mdast ''attributes'' (attributes_value attributes))"

section \<open>Menu Breadcrumb Resolver\<close>

definition breadcrumb_of :: "menu_item \<Rightarrow> PageBreadcrumb" where
  "breadcrumb_of index = \<lparr>crumb_text = item_text index, crumb_href = item_href index\<rparr>"

text \<open>
  The three nested loops. Each returns \<open>Some\<close> of the breadcrumbs where the source calls
  \<^verbatim>\<open>createExport\<close> and returns, and \<open>None\<close> where the loop runs to its end.
\<close>

fun breadcrumbs_C ::
  "string \<Rightarrow> PageBreadcrumb \<Rightarrow> PageBreadcrumb \<Rightarrow> menu_item list \<Rightarrow> PageBreadcrumb list option" where
  "breadcrumbs_C pathname breadcrumbA breadcrumbB [] = None"
| "breadcrumbs_C pathname breadcrumbA breadcrumbB (indexC # rest) =
     (let breadcrumbC = breadcrumb_of indexC
      in if item_href indexC = pathname then Some [breadcrumbA, breadcrumbB, breadcrumbC]
         else breadcrumbs_C pathname breadcrumbA breadcrumbB rest)"

fun breadcrumbs_B ::
  "string \<Rightarrow> PageBreadcrumb \<Rightarrow> menu_item list \<Rightarrow> PageBreadcrumb list option" where
  "breadcrumbs_B pathname breadcrumbA [] = None"
| "breadcrumbs_B pathname breadcrumbA (indexB # rest) =
     (let breadcrumbB = breadcrumb_of indexB
      in if item_href indexB = pathname then Some [breadcrumbA, breadcrumbB]
         else (case (case item_items indexB of
                       None \<Rightarrow> None
                     | Some itemsC \<Rightarrow> breadcrumbs_C pathname breadcrumbA breadcrumbB itemsC) of
                 Some found \<Rightarrow> Some found
               | None \<Rightarrow> breadcrumbs_B pathname breadcrumbA rest))"

fun breadcrumbs_A :: "string \<Rightarrow> menu_item list \<Rightarrow> PageBreadcrumb list option" where
  "breadcrumbs_A pathname [] = None"
| "breadcrumbs_A pathname (indexA # rest) =
     (let breadcrumbA = breadcrumb_of indexA
      in if item_href indexA = pathname then Some [breadcrumbA]
         else (case (case item_items indexA of
                       None \<Rightarrow> None
                     | Some itemsB \<Rightarrow> breadcrumbs_B pathname breadcrumbA itemsB) of
                 Some found \<Rightarrow> Some found
               | None \<Rightarrow> breadcrumbs_A pathname rest))"

definition exportBreadcrumbs ::
  "build_context \<Rightarrow> root \<Rightarrow> string \<Rightarrow> string option \<Rightarrow> root" where
  "exportBreadcrumbs ctx mdast pathname menuPathname =
     (case (case find (\<lambda>m. Some (menu_pathname m) = menuPathname) (menus ctx) of
              None \<Rightarrow> None
            | Some menu \<Rightarrow>
                (case menu_items menu of
                   None \<Rightarrow> None
                 | Some itemsA \<Rightarrow> breadcrumbs_A pathname itemsA)) of
        Some found \<Rightarrow> createExport mdast ''breadcrumbs'' (JArray (map breadcrumb_value found))
      | None \<Rightarrow> createExport mdast ''breadcrumbs'' (JArray []))"

section \<open>Tree traversal\<close>

datatype error = TypeError string

text \<open>
  Modelled from the spec: \<^verbatim>\<open>visit\<close> of the package unist-util-visit is not part of the
  repository. It walks all nodes in document order (depth first, a node before its
  children) and calls the visitor on every node of type \<^verbatim>\<open>element\<close>. The visitors of
  this module only assign properties of the node they are called on, so a visitor takes the
  state and the element and returns the new state and the element's new properties, or the
  exception it throws, which ends the walk.
\<close>

type_synonym 's visitor =
  "'s \<Rightarrow> string \<Rightarrow> properties option \<Rightarrow> node list \<Rightarrow> error + 's \<times> properties option"

fun visit_node :: "'s visitor \<Rightarrow> 's \<Rightarrow> node \<Rightarrow> error + 's \<times> node"
  and visit_nodes :: "'s visitor \<Rightarrow> 's \<Rightarrow> node list \<Rightarrow> error + 's \<times> node list" where
  "visit_node visitor s (Element tagName props kids) =
     (case visitor s tagName props kids of
        Inl e \<Rightarrow> Inl e
      | Inr (s', props') \<Rightarrow>
          (case visit_nodes visitor s' kids of
             Inl e \<Rightarrow> Inl e
           | Inr (s'', kids') \<Rightarrow> Inr (s'', Element tagName props' kids')))"
| "visit_node visitor s (Parent ty kids) =
     (case visit_nodes visitor s kids of
        Inl e \<Rightarrow> Inl e
      | Inr (s', kids') \<Rightarrow> Inr (s', Parent ty kids'))"
| "visit_node visitor s (Text v) = Inr (s, Text v)"
| "visit_node visitor s (Literal ty v) = Inr (s, Literal ty v)"
| "visit_node visitor s (MdxjsEsm name v) = Inr (s, MdxjsEsm name v)"
| "visit_nodes visitor s [] = Inr (s, [])"
| "visit_nodes visitor s (n # ns) =
     (case visit_node visitor s n of
        Inl e \<Rightarrow> Inl e
      | Inr (s', n') \<Rightarrow>
          (case visit_nodes visitor s' ns of
             Inl e \<Rightarrow> Inl e
           | Inr (s'', ns') \<Rightarrow> Inr (s'', n' # ns')))"

definition visit :: "root \<Rightarrow> 's visitor \<Rightarrow> 's \<Rightarrow> error + 's \<times> root" where
  "visit mdast visitor s =
     (case visit_nodes visitor s (root_children mdast) of
        Inl e \<Rightarrow> Inl e
      | Inr (s', kids') \<Rightarrow> Inr (s', Root kids'))"

section \<open>Local-Link Resolver\<close>

text \<open>
  Modelled from the spec: \<^verbatim>\<open>dirname\<close> and \<^verbatim>\<open>resolve\<close> of Node's path module and
  \<^verbatim>\<open>existsSync\<close> of its fs module are not part of the repository. The reference is
  resolved relative to the directory containing the current document's source path; the
  two path functions follow the POSIX variant of the module, and the working directory and
  the files that exist are the environment.
\<close>

record node_env =
  cwd :: string
  existsSync :: "string \<Rightarrow> bool"

definition dirname :: "string \<Rightarrow> string" where
  "dirname path =
     (if path = [] then ''.''
      else let hasRoot = (hd path = CHR ''/'');
               r = dropWhile (\<lambda>c. c \<noteq> CHR ''/'') (dropWhile (\<lambda>c. c = CHR ''/'') (rev (tl path)))
           in if r = [] then (if hasRoot then ''/'' else ''.'')
              else if hasRoot \<and> length r = 1 then ''//''
              else take (length r) path)"

fun normalize_segments :: "bool \<Rightarrow> string list \<Rightarrow> string list \<Rightarrow> string list" where
  "normalize_segments allowAboveRoot res [] = rev res"
| "normalize_segments allowAboveRoot res (seg # segs) =
     (if seg = [] \<or> seg = ''.'' then normalize_segments allowAboveRoot res segs
      else if seg = ''..'' then
        (if res \<noteq> [] \<and> hd res \<noteq> ''..'' then normalize_segments allowAboveRoot (tl res) segs
         else if allowAboveRoot then normalize_segments allowAboveRoot (''..'' # res) segs
         else normalize_segments allowAboveRoot res segs)
      else normalize_segments allowAboveRoot (seg # res) segs)"

definition normalizeString :: "string \<Rightarrow> bool \<Rightarrow> string" where
  "normalizeString path allowAboveRoot =
     join ''/'' (normalize_segments allowAboveRoot [] (split CHR ''/'' path))"

fun resolve_args :: "string list \<Rightarrow> string \<Rightarrow> bool \<Rightarrow> string \<times> bool" where
  "resolve_args [] resolvedPath resolvedAbsolute = (resolvedPath, resolvedAbsolute)"
| "resolve_args (path # paths) resolvedPath resolvedAbsolute =
     (if resolvedAbsolute then (resolvedPath, resolvedAbsolute)
      else if path = [] then resolve_args paths resolvedPath resolvedAbsolute
      else resolve_args paths (path @ ''/'' @ resolvedPath) (hd path = CHR ''/''))"

definition resolve :: "node_env \<Rightarrow> string list \<Rightarrow> string" where
  "resolve env args =
     (case resolve_args (rev args @ [cwd env]) [] False of
        (resolvedPath, resolvedAbsolute) \<Rightarrow>
          (let normalized = normalizeString resolvedPath (\<not> resolvedAbsolute)
           in if resolvedAbsolute then ''/'' @ normalized
              else if normalized \<noteq> [] then normalized else ''.''))"

definition isLocalHref :: "string \<Rightarrow> bool" where
  "isLocalHref href =
     (let href = toLowerCase href
      in \<not> (href = [] \<or>
            startsWith href ''#'' \<or>
            startsWith href ''https://'' \<or>
            startsWith href ''http://'' \<or>
            startsWith href ''about:''))"

definition isTruthy :: "prop_value \<Rightarrow> bool" where
  "isTruthy v =
     (case v of
        PNull \<Rightarrow> False
      | PBool b \<Rightarrow> b
      | PNum n \<Rightarrow> n \<noteq> 0
      | PStr s \<Rightarrow> s \<noteq> []
      | PList xs \<Rightarrow> True)"

text \<open>
  \<^verbatim>\<open>(node.properties && node.properties.href) || ''\<close>, the value that \<^verbatim>\<open>.trim()\<close> is
  called on: only a string has that method.
\<close>

definition href_or_empty :: "properties option \<Rightarrow> error + string" where
  "href_or_empty props =
     (case props of
        None \<Rightarrow> Inr []
      | Some ps \<Rightarrow>
          (case map_of ps ''href'' of
             None \<Rightarrow> Inr []
           | Some v \<Rightarrow>
               if isTruthy v then
                 (case v of
                    PStr s \<Rightarrow> Inr s
                  | _ \<Rightarrow> Inl (TypeError ''trim is not a function''))
               else Inr []))"

definition link_warning :: "string \<Rightarrow> string \<Rightarrow> string" where
  \<open>link_warning href sourcePath =
     [CHR 0x0A] @ ''The link "'' @ href @ ''", found within "'' @ sourcePath @
     ''", does not have a matching source file.'' @ [CHR 0x0A]\<close>

text \<open>
  \<^verbatim>\<open>node.properties.href = node.properties.href.substring(0, n)\<close>: the property is read
  again, untrimmed.
\<close>

definition cut_href :: "properties option \<Rightarrow> int \<Rightarrow> error + properties option" where
  "cut_href props n =
     (case props of
        None \<Rightarrow> Inl (TypeError ''cannot read properties of undefined'')
      | Some ps \<Rightarrow>
          (case map_of ps ''href'' of
             Some (PStr s) \<Rightarrow> Inr (Some (AList.update ''href'' (PStr (substring0 s n)) ps))
           | _ \<Rightarrow> Inl (TypeError ''substring is not a function'')))"

text \<open>The visitor of \<open>updateContentLinks\<close>; its state is the console's warnings.\<close>

definition updateContentLinks_visitor ::
  "node_env \<Rightarrow> string \<Rightarrow> string list visitor" where
  "updateContentLinks_visitor env sourcePath warnings tagName props kids =
     (if toLowerCase tagName \<noteq> ''a'' then Inr (warnings, props)
      else
        (case href_or_empty props of
           Inl e \<Rightarrow> Inl e
         | Inr raw \<Rightarrow>
             (let href = trim raw
              in if \<not> isLocalHref href then Inr (warnings, props)
                 else
                   (let lowerHref = toLowerCase href
                    in if endsWith lowerHref ''.mdx'' \<or> endsWith lowerHref ''.md'' then
                         (let mdxPath = resolve env [dirname sourcePath, href];
                              mdxExists = existsSync env mdxPath
                          in if \<not> mdxExists then
                               Inr (warnings @ [link_warning href sourcePath], props)
                             else if endsWith lowerHref ''.mdx'' then
                               (case cut_href props (int (length href) - 4) of
                                  Inl e \<Rightarrow> Inl e
                                | Inr props' \<Rightarrow> Inr (warnings, props'))
                             else if endsWith lowerHref ''.md'' then
                               (case cut_href props (int (length href) - 3) of
                                  Inl e \<Rightarrow> Inl e
                                | Inr props' \<Rightarrow> Inr (warnings, props'))
                             else Inr (warnings, props))
                       else Inr (warnings, props)))))"

definition updateContentLinks ::
  "node_env \<Rightarrow> root \<Rightarrow> string \<Rightarrow> error + root \<times> string list" where
  "updateContentLinks env mdast sourcePath =
     (case visit mdast (updateContentLinks_visitor env sourcePath) [] of
        Inl e \<Rightarrow> Inl e
      | Inr (warnings, mdast') \<Rightarrow> Inr (mdast', warnings))"

section \<open>Heading Slugger\<close>

text \<open>
  Modelled from the spec: \<^verbatim>\<open>headingRank\<close> (hast-util-heading-rank) and \<^verbatim>\<open>toString\<close>
  (hast-util-to-string) are not part of the repository. A heading element is one of
  \<open>h1\<close> to \<open>h6\<close>, and its level is that digit; the plain-text content of a node is the
  concatenation of all its descendant text, ignoring markup.
\<close>

definition headingRank :: "string \<Rightarrow> nat option" where
  "headingRank tagName =
     (case toLowerCase tagName of
        [h, d] \<Rightarrow>
          if h = CHR ''h'' \<and> 48 < (of_char d :: nat) \<and> (of_char d :: nat) < 55
          then Some (of_char d - 48) else None
      | _ \<Rightarrow> None)"

fun one :: "node \<Rightarrow> string" and all_text :: "node list \<Rightarrow> string" where
  "one (Text v) = v"
| "one (Element tagName props kids) = all_text kids"
| "one (Parent ty kids) = all_text kids"
| "one (Literal ty v) = []"
| "one (MdxjsEsm name v) = []"
| "all_text [] = []"
| "all_text (n # ns) = one n @ all_text ns"

fun toString :: "node \<Rightarrow> string" where
  "toString (Element tagName props kids) = all_text kids"
| "toString (Parent ty kids) = all_text kids"
| "toString (Text v) = v"
| "toString (Literal ty v) = v"
| "toString (MdxjsEsm name v) = []"

text \<open>
  \<open>hasProperty\<close> for an element with the given properties object: the value read is
  \<^verbatim>\<open>propName\<close> itself when that is the empty string, and the property (or
  \<^verbatim>\<open>undefined\<close>, or \<^verbatim>\<open>false\<close>) otherwise.
\<close>

definition hasProperty :: "properties option \<Rightarrow> string \<Rightarrow> bool" where
  "hasProperty props propName =
     (if propName = [] then True
      else
        (case props of
           None \<Rightarrow> False
         | Some ps \<Rightarrow>
             (case map_of ps propName of
                None \<Rightarrow> False
              | Some v \<Rightarrow> v \<noteq> PNull \<and> v \<noteq> PBool False)))"

subsection \<open>The slug registry\<close>

text \<open>
  Modelled from the spec: the class \<^verbatim>\<open>Slugger\<close> of the package github-slugger is not part
  of the repository. A slug is the heading text case-folded, with every character other
  than a letter, a digit, a space, a hyphen or an underscore stripped and every space
  replaced by a hyphen. The registry maps each slug it has handed out to a counter; on a
  collision the counter of the original slug is incremented and appended as the suffix
  \<open>-1\<close>, \<open>-2\<close>, ... until the result collides with nothing in the registry.
\<close>

type_synonym slugger = "(string \<times> nat) list"

fun string_of_nat :: "nat \<Rightarrow> string" where
  "string_of_nat n =
     (if n < 10 then [char_of (48 + n)]
      else string_of_nat (n div 10) @ [char_of (48 + n mod 10)])"

declare string_of_nat.simps [simp del]

definition isLetterOrDigit :: "char \<Rightarrow> bool" where
  "isLetterOrDigit c =
     (let n = (of_char c :: nat)
      in (48 \<le> n \<and> n \<le> 57) \<or> (65 \<le> n \<and> n \<le> 90) \<or> (97 \<le> n \<and> n \<le> 122) \<or>
         n = 170 \<or> n = 181 \<or> n = 186 \<or> (192 \<le> n \<and> n \<noteq> 215 \<and> n \<noteq> 247))"

definition slugify :: "string \<Rightarrow> string" where
  "slugify txt =
     map (\<lambda>c. if c = CHR '' '' then CHR ''-'' else c)
       (filter (\<lambda>c. isLetterOrDigit c \<or> c = CHR '' '' \<or> c = CHR ''-'' \<or> c = CHR ''_'')
          (toLowerCase txt))"

definition suffixed :: "string \<Rightarrow> nat \<Rightarrow> string" where
  "suffixed originalSlug n = originalSlug @ ''-'' @ string_of_nat n"

lemma string_of_nat_nonempty: "string_of_nat n \<noteq> []"
  by (subst string_of_nat.simps) simp

lemma string_of_nat_nonempty': "[] \<noteq> string_of_nat n"
  using string_of_nat_nonempty[of n] by simp

lemma digit_char_inj: "a < 10 \<Longrightarrow> b < 10 \<Longrightarrow> char_of (48 + a :: nat) = char_of (48 + b) \<Longrightarrow> a = b"
proof -
  assume a: "a < 10" and b: "b < 10" and e: "char_of (48 + a :: nat) = char_of (48 + b)"
  from e have "(of_char (char_of (48 + a :: nat)) :: nat) = of_char (char_of (48 + b))" by simp
  then have "(48 + a) mod 256 = (48 + b) mod 256" by simp
  with a b show "a = b" by simp
qed

lemma string_of_nat_inj: "string_of_nat n = string_of_nat m \<Longrightarrow> n = m"
proof (induction n arbitrary: m rule: string_of_nat.induct)
  case (1 n)
  show ?case
  proof (cases "n < 10")
    case n: True
    show ?thesis
    proof (cases "m < 10")
      case True
      with n "1.prems" show ?thesis
        by (simp add: string_of_nat.simps[of n] string_of_nat.simps[of m] digit_char_inj)
    next
      case False
      with n "1.prems" show ?thesis
        by (simp add: string_of_nat.simps[of n] string_of_nat.simps[of m] string_of_nat_nonempty string_of_nat_nonempty')
    qed
  next
    case n: False
    show ?thesis
    proof (cases "m < 10")
      case True
      with n "1.prems" show ?thesis
        by (simp add: string_of_nat.simps[of n] string_of_nat.simps[of m] string_of_nat_nonempty string_of_nat_nonempty')
    next
      case False
      with n "1.prems" have e: "string_of_nat (n div 10) = string_of_nat (m div 10)"
        and d: "char_of (48 + n mod 10) = char_of (48 + m mod 10)"
        by (simp_all add: string_of_nat.simps[of n] string_of_nat.simps[of m])
      from "1.IH"[OF n e] have "n div 10 = m div 10" .
      moreover from d have "n mod 10 = m mod 10" by (intro digit_char_inj) simp_all
      ultimately show ?thesis by (metis div_mult_mod_eq)
    qed
  qed
qed

lemma suffixed_inj: "suffixed s n = suffixed s m \<Longrightarrow> n = m"
  by (simp add: suffixed_def string_of_nat_inj)

lemma suffixed_neq: "suffixed s n \<noteq> s"
  by (simp add: suffixed_def)

text \<open>
  The keys of the registry that a collision on \<open>originalSlug\<close> can still run into once its
  counter is \<open>n\<close>: there are finitely many, and each round of the loop passes one.
\<close>

definition later_keys :: "slugger \<Rightarrow> string \<Rightarrow> nat \<Rightarrow> string set" where
  "later_keys occurrences originalSlug n =
     {k \<in> fst ` set occurrences. \<exists>m>n. k = suffixed originalSlug m}"

lemma later_keys_decrease:
  assumes "map_of occurrences (suffixed originalSlug (Suc n)) \<noteq> None"
  shows "card (later_keys occurrences originalSlug (Suc n)) < card (later_keys occurrences originalSlug n)"
proof (rule psubset_card_mono)
  show "finite (later_keys occurrences originalSlug n)" by (simp add: later_keys_def)
  have k: "suffixed originalSlug (Suc n) \<in> fst ` set occurrences"
    using assms by (simp add: map_of_eq_None_iff)
  then have "suffixed originalSlug (Suc n) \<in> later_keys occurrences originalSlug n"
    by (auto simp: later_keys_def)
  moreover have "suffixed originalSlug (Suc n) \<notin> later_keys occurrences originalSlug (Suc n)"
    by (auto simp: later_keys_def dest: suffixed_inj)
  moreover have "later_keys occurrences originalSlug (Suc n) \<subseteq> later_keys occurrences originalSlug n"
    by (auto simp: later_keys_def intro: Suc_lessD)
  ultimately show "later_keys occurrences originalSlug (Suc n) \<subset> later_keys occurrences originalSlug n"
    by blast
qed

text \<open>
  The loop of \<open>slug\<close> once the original slug is known to be in the registry with counter
  \<open>n\<close>. Only that counter changes while the loop runs, so it is carried along and stored
  when the loop ends.
\<close>

function slug_collide :: "slugger \<Rightarrow> string \<Rightarrow> nat \<Rightarrow> slugger \<times> string" where
  "slug_collide occurrences originalSlug n =
     (let n' = Suc n;
          result = suffixed originalSlug n'
      in if map_of occurrences result \<noteq> None then slug_collide occurrences originalSlug n'
         else (AList.update result 0 (AList.update originalSlug n' occurrences), result))"
  by pat_completeness auto
termination
  by (relation "measure (\<lambda>(occurrences, originalSlug, n). card (later_keys occurrences originalSlug n))")
     (auto simp: later_keys_decrease)

declare slug_collide.simps [simp del]

definition reset :: "slugger \<Rightarrow> slugger" where
  "reset occurrences = []"

definition slug :: "slugger \<Rightarrow> string \<Rightarrow> slugger \<times> string" where
  "slug occurrences val =
     (let originalSlug = slugify val
      in case map_of occurrences originalSlug of
           None \<Rightarrow> (AList.update originalSlug 0 occurrences, originalSlug)
         | Some n \<Rightarrow> slug_collide occurrences originalSlug n)"

subsection \<open>The heading pass\<close>

text \<open>The visitor of \<open>exportContentHeadings\<close>; its state is the registry and the outline.\<close>

definition exportContentHeadings_visitor :: "(slugger \<times> PageHeading list) visitor" where
  "exportContentHeadings_visitor st tagName props kids =
     (case st of
        (slugs, headings) \<Rightarrow>
          (case headingRank tagName of
             None \<Rightarrow> Inr (st, props)
           | Some level \<Rightarrow>
               (case props of
                  None \<Rightarrow> Inr (st, props)
                | Some ps \<Rightarrow>
                    if hasProperty props ''id'' then Inr (st, props)
                    else
                      (let txt = toString (Element tagName props kids)
                       in case slug slugs txt of
                            (slugs', ident) \<Rightarrow>
                              Inr ((slugs',
                                    headings @
                                    [\<lparr>heading_text = txt, heading_id = ident,
                                      heading_level = level\<rparr>]),
                                   Some (AList.update ''id'' (PStr ident) ps))))))"

text \<open>
  The module-level registry \<open>slugs\<close> is an argument and a result: the pass resets it,
  uses it, and leaves it for the next document.
\<close>

definition exportContentHeadings :: "slugger \<Rightarrow> root \<Rightarrow> error + slugger \<times> root" where
  "exportContentHeadings slugs mdast =
     (case visit mdast exportContentHeadings_visitor (reset slugs, []) of
        Inl e \<Rightarrow> Inl e
      | Inr ((slugs', headings), mdast') \<Rightarrow>
          Inr (slugs', createExport mdast' ''headings'' (JArray (map heading_value headings))))"

section \<open>Pipeline Orchestrator\<close>

text \<open>
  Modelled from the spec: \<^verbatim>\<open>getPagePathname\<close> of \<^verbatim>\<open>../utils/pathname\<close> is not among the
  sources; it derives the page's published pathname from its source path and is a
  parameter here. The result is the tree, the registry and the console's warnings, or the
  exception that ended the run.
\<close>

definition rehypePage ::
  "build_context \<Rightarrow> (string \<Rightarrow> string) \<Rightarrow> node_env \<Rightarrow> slugger \<Rightarrow> root \<Rightarrow> string \<Rightarrow>
     error + root \<times> slugger \<times> string list" where
  "rehypePage ctx getPagePathname env slugs ast vfile_path =
     (let sourcePath = vfile_path;
          pathname = getPagePathname vfile_path;
          menuPathname = getMenuPathname ctx pathname
      in case updateContentLinks env ast sourcePath of
           Inl e \<Rightarrow> Inl e
         | Inr (mdast1, warnings) \<Rightarrow>
             (case exportContentHeadings slugs mdast1 of
                Inl e \<Rightarrow> Inl e
              | Inr (slugs', mdast2) \<Rightarrow>
                  (let mdast3 = exportPageAttributes ctx mdast2 pathname;
                       mdast4 = exportBreadcrumbs ctx mdast3 pathname menuPathname;
                       mdast5 = exportPageIndex ctx mdast4 menuPathname
                   in Inr (mdast5, slugs', warnings))))"

section \<open>The elements of a tree, in document order\<close>

text \<open>
  An element as a visitor sees it: its tag name, its properties object and its children.
  \<open>elements\<close> lists the elements of a tree in the order in which \<open>visit\<close> reaches them,
  and \<open>run_visitor\<close> calls a visitor on such a list, one element after the other.
\<close>

type_synonym element = "string \<times> properties option \<times> node list"

fun elements_node :: "node \<Rightarrow> element list"
  and elements_nodes :: "node list \<Rightarrow> element list" where
  "elements_node (Element tagName props kids) = (tagName, props, kids) # elements_nodes kids"
| "elements_node (Parent ty kids) = elements_nodes kids"
| "elements_node (Text v) = []"
| "elements_node (Literal ty v) = []"
| "elements_node (MdxjsEsm name v) = []"
| "elements_nodes [] = []"
| "elements_nodes (n # ns) = elements_node n @ elements_nodes ns"

definition elements :: "root \<Rightarrow> element list" where
  "elements mdast = elements_nodes (root_children mdast)"

definition tag_and_properties :: "element \<Rightarrow> string \<times> properties option" where
  "tag_and_properties el = (fst el, fst (snd el))"

fun run_visitor :: "'s visitor \<Rightarrow> 's \<Rightarrow> element list \<Rightarrow> error + 's \<times> properties option list" where
  "run_visitor visitor s [] = Inr (s, [])"
| "run_visitor visitor s (el # els) =
     (case visitor s (fst el) (fst (snd el)) (snd (snd el)) of
        Inl e \<Rightarrow> Inl e
      | Inr (s', props') \<Rightarrow>
          (case run_visitor visitor s' els of
             Inl e \<Rightarrow> Inl e
           | Inr (s'', ps) \<Rightarrow> Inr (s'', props' # ps)))"

lemma run_visitor_append:
  "run_visitor f s (xs @ ys) =
     (case run_visitor f s xs of
        Inl e \<Rightarrow> Inl e
      | Inr (s', ps) \<Rightarrow>
          (case run_visitor f s' ys of
             Inl e \<Rightarrow> Inl e
           | Inr (s'', qs) \<Rightarrow> Inr (s'', ps @ qs)))"
  by (induction xs arbitrary: s) (auto split: sum.splits)

lemma visit_run:
  "visit_node f s n = Inr (s', n') \<Longrightarrow>
     run_visitor f s (elements_node n) = Inr (s', map (fst \<circ> snd) (elements_node n')) \<and>
     map fst (elements_node n') = map fst (elements_node n)"
  "visit_nodes f s ns = Inr (s', ns') \<Longrightarrow>
     run_visitor f s (elements_nodes ns) = Inr (s', map (fst \<circ> snd) (elements_nodes ns')) \<and>
     map fst (elements_nodes ns') = map fst (elements_nodes ns)"
proof (induction f s n and f s ns arbitrary: s' n' and s' ns' rule: visit_node_visit_nodes.induct)
  case (1 visitor s tagName props kids)
  from "1.prems" obtain s1 p1 kids' where
    v: "visitor s tagName props kids = Inr (s1, p1)" and
    k: "visit_nodes visitor s1 kids = Inr (s', kids')" and
    n: "n' = Element tagName p1 kids'"
    by (auto split: sum.splits)
  from "1.IH"[OF v refl k] show ?case using v n by simp
next
  case (2 visitor s ty kids)
  from "2.prems" obtain kids' where
    k: "visit_nodes visitor s kids = Inr (s', kids')" and n: "n' = Parent ty kids'"
    by (auto split: sum.splits)
  from "2.IH"[OF k] show ?case using n by simp
next
  case (3 visitor s v)
  then show ?case by auto
next
  case (4 visitor s ty v)
  then show ?case by auto
next
  case (5 visitor s name v)
  then show ?case by auto
next
  case (6 visitor s)
  then show ?case by auto
next
  case (7 visitor s n ns)
  from "7.prems" obtain s1 n1 ns1 where
    v: "visit_node visitor s n = Inr (s1, n1)" and
    k: "visit_nodes visitor s1 ns = Inr (s', ns1)" and
    r: "ns' = n1 # ns1"
    by (auto split: sum.splits)
  from "7.IH"(1)[OF v] "7.IH"(2)[OF v refl k] show ?case
    using r by (simp add: run_visitor_append)
qed

lemma visit_total:
  "(\<And>s el. el \<in> set (elements_node n) \<Longrightarrow> \<exists>r. f s (fst el) (fst (snd el)) (snd (snd el)) = Inr r) \<Longrightarrow>
     \<exists>r. visit_node f s n = Inr r"
  "(\<And>s el. el \<in> set (elements_nodes ns) \<Longrightarrow> \<exists>r. f s (fst el) (fst (snd el)) (snd (snd el)) = Inr r) \<Longrightarrow>
     \<exists>r. visit_nodes f s ns = Inr r"
proof (induction f s n and f s ns rule: visit_node_visit_nodes.induct)
  case (1 visitor s tagName props kids)
  from "1.prems"[of "(tagName, props, kids)" s] obtain s1 p1
    where v: "visitor s tagName props kids = Inr (s1, p1)" by auto
  have "\<exists>r. visit_nodes visitor s1 kids = Inr r"
    using "1.IH"[OF v refl] "1.prems" by auto
  with v show ?case by auto
next
  case (2 visitor s ty kids)
  then have "\<exists>r. visit_nodes visitor s kids = Inr r" by auto
  then show ?case by auto
next
  case (7 visitor s n ns)
  have "\<exists>r. visit_node visitor s n = Inr r" using 7 by auto
  then obtain s1 n1 where v: "visit_node visitor s n = Inr (s1, n1)" by auto
  have "\<exists>r. visit_nodes visitor s1 ns = Inr r"
    using "7.IH"(2)[OF v refl] "7.prems" by auto
  with v show ?case by auto
qed auto

lemma elements_createExport [simp]: "elements (createExport mdast name v) = elements mdast"
  by (simp add: elements_def createExport_def)

section \<open>Facts about strings\<close>

lemma of_char_toLowerChar:
  "(of_char (toLowerChar c) :: nat) =
     (let n = (of_char c :: nat)
      in if (65 \<le> n \<and> n \<le> 90) \<or> (192 \<le> n \<and> n \<le> 214) \<or> (216 \<le> n \<and> n \<le> 222)
         then n + 32 else n)"
  by (auto simp: toLowerChar_def Let_def)

lemma isWhiteSpace_toLowerChar [simp]: "isWhiteSpace (toLowerChar c) = isWhiteSpace c"
  by (auto simp: isWhiteSpace_def of_char_toLowerChar Let_def)

lemma toLowerChar_hash [simp]: "(toLowerChar c = CHR ''#'') = (c = CHR ''#'')"
proof -
  have "(toLowerChar c = CHR ''#'') = ((of_char (toLowerChar c) :: nat) = of_char CHR ''#'')"
    by (simp only: of_char_eq_iff)
  also have "\<dots> = ((of_char c :: nat) = of_char CHR ''#'')"
    by (auto simp: of_char_toLowerChar Let_def)
  also have "\<dots> = (c = CHR ''#'')"
    by (simp only: of_char_eq_iff)
  finally show ?thesis .
qed

lemma dropWhile_map_lower: "dropWhile isWhiteSpace (map toLowerChar s) = map toLowerChar (dropWhile isWhiteSpace s)"
  by (induction s) auto

lemma trim_toLowerCase: "trim (toLowerCase s) = toLowerCase (trim s)"
  by (simp add: trim_def toLowerCase_def dropWhile_map_lower rev_map)

lemma trim_Nil [simp]: "trim [] = []"
  by (simp add: trim_def)

lemma trim_all_white: "\<forall>c\<in>set s. isWhiteSpace c \<Longrightarrow> trim s = []"
proof -
  assume "\<forall>c\<in>set s. isWhiteSpace c"
  then have "dropWhile isWhiteSpace s = []" by (induction s) auto
  then show ?thesis by (simp add: trim_def del: dropWhile_eq_Nil_conv)
qed

lemma trim_keeps_prefix:
  assumes "startsWith s p" and "p \<noteq> []" and "\<not> isWhiteSpace (hd p)" and "\<not> isWhiteSpace (last p)"
  shows "startsWith (trim s) p"
proof -
  from assms(1) obtain r where s: "s = p @ r"
    by (metis append_take_drop_id startsWith_def)
  from assms(2,3) have d: "dropWhile isWhiteSpace s = s"
    unfolding s by (cases p) auto
  have "\<exists>x. dropWhile isWhiteSpace (rev r @ rev p) = x @ rev p"
  proof (cases "\<forall>c\<in>set (rev r). isWhiteSpace c")
    case True
    then have "dropWhile isWhiteSpace (rev r @ rev p) = dropWhile isWhiteSpace (rev p)"
      by (intro dropWhile_append2) auto
    also have "\<dots> = rev p"
    proof (cases "rev p")
      case Nil
      then show ?thesis by simp
    next
      case (Cons y ys)
      then have "y = last p" by (metis hd_rev list.sel(1))
      with assms(4) have "dropWhile isWhiteSpace (y # ys) = y # ys" by simp
      with Cons show ?thesis by (simp only:)
    qed
    finally show ?thesis by (intro exI[of _ "[]"]) simp
  next
    case False
    then obtain c where "c \<in> set (rev r)" "\<not> isWhiteSpace c" by blast
    then have "dropWhile isWhiteSpace (rev r @ rev p) = dropWhile isWhiteSpace (rev r) @ rev p"
      by (simp add: dropWhile_append1)
    then show ?thesis by blast
  qed
  then obtain x where "dropWhile isWhiteSpace (rev s) = x @ rev p" unfolding s by auto
  then have "trim s = p @ rev x" by (simp add: trim_def d)
  then show ?thesis by (simp add: startsWith_def)
qed

section \<open>Properties of the Local-Link Resolver\<close>

text \<open>
  A non-local target in the words of the specification: the empty string, a fragment, or a
  target that starts, in any case, with one of three schemes. It is the negation of
  \<open>isLocalHref\<close>, and trimming keeps a target non-local.
\<close>

definition non_local :: "string \<Rightarrow> bool" where
  "non_local target =
     (target = [] \<or> startsWith target ''#'' \<or>
      startsWith (toLowerCase target) ''http://'' \<or>
      startsWith (toLowerCase target) ''https://'' \<or>
      startsWith (toLowerCase target) ''about:'')"

lemma startsWith_hash_lower: "startsWith (toLowerCase t) ''#'' = startsWith t ''#''"
  by (cases t) (auto simp: startsWith_def toLowerCase_def)

lemma toLowerCase_Nil_iff [simp]: "(toLowerCase t = []) = (t = [])"
  by (simp add: toLowerCase_def)

lemma non_local_iff: "non_local t = (\<not> isLocalHref t)"
  by (auto simp: non_local_def isLocalHref_def Let_def startsWith_hash_lower)

lemma white_chars [simp]:
  "\<not> isWhiteSpace CHR ''#''" "\<not> isWhiteSpace CHR ''h''" "\<not> isWhiteSpace CHR ''a''"
  "\<not> isWhiteSpace CHR ''/''" "\<not> isWhiteSpace CHR '':''"
  by (simp_all add: isWhiteSpace_def)

lemma non_local_trim: "non_local t \<Longrightarrow> non_local (trim t)"
  unfolding non_local_def trim_toLowerCase[symmetric]
  by (auto dest!: trim_keeps_prefix)

lemma links_visitor_non_local:
  assumes "toLowerCase tagName = ''a''" and "href_or_empty props = Inr raw"
    and "\<not> isLocalHref (trim raw)"
  shows "updateContentLinks_visitor env sourcePath ws tagName props kids = Inr (ws, props)"
  using assms by (simp add: updateContentLinks_visitor_def Let_def)

lemma links_visitor_state:
  assumes "updateContentLinks_visitor env sourcePath ws tagName props kids = Inr (ws', props')"
  shows "\<exists>w. ws' = ws @ w \<and>
           (\<forall>ws0. updateContentLinks_visitor env sourcePath ws0 tagName props kids =
                    Inr (ws0 @ w, props'))"
  using assms
  by (auto simp: updateContentLinks_visitor_def Let_def split: if_splits sum.splits)

lemma links_run:
  "run_visitor (updateContentLinks_visitor env sourcePath) ws els = Inr (ws', ps) \<Longrightarrow>
     length ps = length els \<and> set ws \<subseteq> set ws' \<and>
     (\<forall>i<length els. \<exists>w.
        updateContentLinks_visitor env sourcePath [] (fst (els ! i)) (fst (snd (els ! i)))
          (snd (snd (els ! i))) = Inr (w, ps ! i) \<and> set w \<subseteq> set ws')"
proof (induction els arbitrary: ws ws' ps)
  case Nil
  then show ?case by auto
next
  case (Cons el els)
  from Cons.prems obtain ws1 p1 ps1 where
    v: "updateContentLinks_visitor env sourcePath ws (fst el) (fst (snd el)) (snd (snd el)) = Inr (ws1, p1)"
    and r: "run_visitor (updateContentLinks_visitor env sourcePath) ws1 els = Inr (ws', ps1)"
    and ps: "ps = p1 # ps1"
    by (auto split: sum.splits)
  from links_visitor_state[OF v] obtain w where
    w: "ws1 = ws @ w"
    "updateContentLinks_visitor env sourcePath [] (fst el) (fst (snd el)) (snd (snd el)) = Inr (w, p1)"
    by force
  from Cons.IH[OF r] have ih: "length ps1 = length els" "set ws1 \<subseteq> set ws'"
    "\<forall>i<length els. \<exists>w.
        updateContentLinks_visitor env sourcePath [] (fst (els ! i)) (fst (snd (els ! i)))
          (snd (snd (els ! i))) = Inr (w, ps1 ! i) \<and> set w \<subseteq> set ws'"
    by auto
  have "\<forall>i<length (el # els). \<exists>w.
        updateContentLinks_visitor env sourcePath [] (fst ((el # els) ! i)) (fst (snd ((el # els) ! i)))
          (snd (snd ((el # els) ! i))) = Inr (w, ps ! i) \<and> set w \<subseteq> set ws'"
  proof (intro allI impI)
    fix i assume "i < length (el # els)"
    show "\<exists>w.
        updateContentLinks_visitor env sourcePath [] (fst ((el # els) ! i)) (fst (snd ((el # els) ! i)))
          (snd (snd ((el # els) ! i))) = Inr (w, ps ! i) \<and> set w \<subseteq> set ws'"
    proof (cases i)
      case 0
      then show ?thesis using w ih(2) ps by auto
    next
      case (Suc j)
      then show ?thesis using ih(3) \<open>i < length (el # els)\<close> ps by auto
    qed
  qed
  then show ?case using ih w ps by auto
qed

lemma updateContentLinks_elements:
  assumes "updateContentLinks env mdast sourcePath = Inr (mdast', warnings)"
  shows "length (elements mdast') = length (elements mdast) \<and>
     (\<forall>i<length (elements mdast).
        fst (elements mdast' ! i) = fst (elements mdast ! i) \<and>
        (\<exists>w. updateContentLinks_visitor env sourcePath [] (fst (elements mdast ! i))
               (fst (snd (elements mdast ! i))) (snd (snd (elements mdast ! i))) =
               Inr (w, fst (snd (elements mdast' ! i))) \<and> set w \<subseteq> set warnings))"
proof -
  from assms obtain kids' where
    v: "visit_nodes (updateContentLinks_visitor env sourcePath) [] (root_children mdast) = Inr (warnings, kids')"
    and m: "mdast' = Root kids'"
    by (auto simp: updateContentLinks_def visit_def split: sum.splits)
  from visit_run(2)[OF v] have
    r: "run_visitor (updateContentLinks_visitor env sourcePath) [] (elements mdast) =
          Inr (warnings, map (fst \<circ> snd) (elements mdast'))"
    and t: "map fst (elements mdast') = map fst (elements mdast)"
    by (simp_all add: elements_def m)
  from t have len: "length (elements mdast') = length (elements mdast)"
    by (metis length_map)
  from t len have tags: "\<forall>i<length (elements mdast). fst (elements mdast' ! i) = fst (elements mdast ! i)"
    by (metis nth_map)
  from links_run[OF r] len tags show ?thesis by auto
qed

text \<open>
  The target attribute of an element, if it has one, and \<^verbatim>\<open>String.prototype.includes\<close>.
\<close>

definition target_of :: "properties option \<Rightarrow> prop_value option" where
  "target_of props = (case props of None \<Rightarrow> None | Some ps \<Rightarrow> map_of ps ''href'')"

fun string_includes :: "string \<Rightarrow> string \<Rightarrow> bool" where
  "string_includes [] sub = (sub = [])"
| "string_includes (c # cs) sub = (startsWith (c # cs) sub \<or> string_includes cs sub)"

lemma string_includes_prefix: "string_includes (sub @ b) sub"
proof (cases "sub @ b")
  case Nil
  then show ?thesis by simp
next
  case (Cons c cs)
  have "startsWith (sub @ b) sub" by (simp add: startsWith_def)
  then show ?thesis unfolding Cons by simp
qed

lemma string_includes_append: "string_includes (a @ sub @ b) sub"
proof (induction a)
  case Nil
  then show ?case using string_includes_prefix by simp
next
  case (Cons c a)
  then show ?case by simp
qed

lemma href_or_empty_string:
  "target_of props = Some (PStr target) \<Longrightarrow> href_or_empty props = Inr target"
  by (auto simp: target_of_def href_or_empty_def isTruthy_def split: option.splits)

lemma href_or_empty_absent: "target_of props = None \<Longrightarrow> href_or_empty props = Inr []"
  by (auto simp: target_of_def href_or_empty_def split: option.splits)

lemma links_unchanged_in_tree:
  assumes v: "updateContentLinks_visitor env sourcePath [] tagName props kids = Inr (w, props)"
    and u: "updateContentLinks env mdast sourcePath = Inr (mdast', warnings)"
    and i: "i < length (elements mdast)" and el: "elements mdast ! i = (tagName, props, kids)"
  shows "i < length (elements mdast') \<and>
         tag_and_properties (elements mdast' ! i) = (tagName, props) \<and> set w \<subseteq> set warnings"
proof -
  from updateContentLinks_elements[OF u] i have
    len: "length (elements mdast') = length (elements mdast)" and
    tg: "fst (elements mdast' ! i) = fst (elements mdast ! i)" and
    ex: "\<exists>w. updateContentLinks_visitor env sourcePath [] (fst (elements mdast ! i))
               (fst (snd (elements mdast ! i))) (snd (snd (elements mdast ! i))) =
               Inr (w, fst (snd (elements mdast' ! i))) \<and> set w \<subseteq> set warnings"
    by auto
  from ex obtain w' where
    w': "updateContentLinks_visitor env sourcePath [] tagName props kids =
           Inr (w', fst (snd (elements mdast' ! i)))" "set w' \<subseteq> set warnings"
    using el by auto
  from w'(1) v have "w' = w" "fst (snd (elements mdast' ! i)) = props" by auto
  then show ?thesis using len i tg el w'(2) by (simp add: tag_and_properties_def)
qed

text \<open>
  C5. An anchor (tag name \<open>a\<close> in any case) whose target attribute is a non-local string
  (empty, starting with \<open>#\<close>, or starting case-insensitively with \<open>http://\<close>,
  \<open>https://\<close> or \<open>about:\<close>, before or after trimming) is left as it is: the visitor
  returns its properties and the warnings unchanged, and in every tree that
  \<open>updateContentLinks\<close> returns, the element at the anchor's position has the anchor's tag
  name and properties.
\<close>

theorem non_local_links_untouched:
  assumes "toLowerCase tagName = ''a''"
    and "target_of props = Some (PStr target)"
    and "non_local target \<or> non_local (trim target)"
  shows "updateContentLinks_visitor env sourcePath ws tagName props kids = Inr (ws, props) \<and>
         (\<forall>mdast mdast' warnings i.
            updateContentLinks env mdast sourcePath = Inr (mdast', warnings) \<and>
            i < length (elements mdast) \<and> elements mdast ! i = (tagName, props, kids) \<longrightarrow>
            i < length (elements mdast') \<and>
            tag_and_properties (elements mdast' ! i) = (tagName, props))"
proof -
  from assms(3) have nl: "\<not> isLocalHref (trim target)"
    using non_local_trim non_local_iff by blast
  have v: "\<And>ws. updateContentLinks_visitor env sourcePath ws tagName props kids = Inr (ws, props)"
    using links_visitor_non_local[OF assms(1) href_or_empty_string[OF assms(2)] nl] .
  show ?thesis
    using v links_unchanged_in_tree[OF v[of "[]"]] by blast
qed

text \<open>An environment in which no file exists, and an anchor with an external target.\<close>

definition env_none :: node_env where
  "env_none = \<lparr>cwd = ''/'', existsSync = (\<lambda>path. False)\<rparr>"

definition external_link :: node where
  "external_link = Element ''A'' (Some [(''href'', PStr ''HTTPS://example.com/guide.md'')]) [Text ''guide'']"

lemma external_link_eval:
  "updateContentLinks env_none (Root [external_link]) ''/docs/bar.mdx'' = Inr (Root [external_link], [])"
  by code_simp

text \<open>C5 at an upper-case \<open>HTTPS\<close> target that ends in \<open>.md\<close>.\<close>

theorem non_local_links_untouched_witness:
  "toLowerCase ''A'' = ''a'' \<and>
   non_local ''HTTPS://example.com/guide.md'' \<and>
   updateContentLinks env_none (Root [external_link]) ''/docs/bar.mdx'' = Inr (Root [external_link], []) \<and>
   updateContentLinks_visitor env_none ''/docs/bar.mdx'' [] ''A''
     (Some [(''href'', PStr ''HTTPS://example.com/guide.md'')]) [Text ''guide''] =
     Inr ([], Some [(''href'', PStr ''HTTPS://example.com/guide.md'')]) \<and>
   tag_and_properties (elements (Root [external_link]) ! 0) =
     (''A'', Some [(''href'', PStr ''HTTPS://example.com/guide.md'')])"
proof -
  have a: "toLowerCase ''A'' = ''a''" by code_simp
  have t: "target_of (Some [(''href'', PStr ''HTTPS://example.com/guide.md'')]) =
             Some (PStr ''HTTPS://example.com/guide.md'')"
    by (simp add: target_of_def)
  have n: "non_local ''HTTPS://example.com/guide.md''" by code_simp
  have e: "elements (Root [external_link]) ! 0 =
             (''A'', Some [(''href'', PStr ''HTTPS://example.com/guide.md'')], [Text ''guide''])"
    by (simp add: elements_def external_link_def)
  from non_local_links_untouched[OF a t disjI1[OF n], of env_none "''/docs/bar.mdx''" "[]" "[Text ''guide'']"]
  show ?thesis using a n e external_link_eval
    by (simp add: tag_and_properties_def)
qed

text \<open>
  C10. An anchor whose target attribute is absent, or a string of white space only, is
  handled as if the target were the empty string: the value the resolver reads trims to
  the empty string. Such an anchor, and any anchor whose target is non-local once trimmed
  (whatever the untrimmed target looks like), is left as it is, without a warning.
\<close>

theorem blank_links_untouched:
  assumes "toLowerCase tagName = ''a''"
    and "target_of props = None \<or>
         (target_of props = Some (PStr target) \<and>
          ((\<forall>c\<in>set target. isWhiteSpace c) \<or> \<not> isLocalHref (trim target)))"
  shows "(target_of props = None \<or> (\<forall>c\<in>set target. isWhiteSpace c) \<longrightarrow>
            (\<exists>raw. href_or_empty props = Inr raw \<and> trim raw = [])) \<and>
         updateContentLinks_visitor env sourcePath ws tagName props kids = Inr (ws, props) \<and>
         (\<forall>mdast mdast' warnings i.
            updateContentLinks env mdast sourcePath = Inr (mdast', warnings) \<and>
            i < length (elements mdast) \<and> elements mdast ! i = (tagName, props, kids) \<longrightarrow>
            i < length (elements mdast') \<and>
            tag_and_properties (elements mdast' ! i) = (tagName, props))"
proof -
  have e: "isLocalHref [] = False"
    by (simp add: isLocalHref_def)
  from assms(2) obtain raw where
    raw: "href_or_empty props = Inr raw" and nl: "\<not> isLocalHref (trim raw)" and
    blank: "target_of props = None \<or> (\<forall>c\<in>set target. isWhiteSpace c) \<longrightarrow> trim raw = []"
  proof (elim disjE conjE)
    assume a: "target_of props = None"
    show ?thesis
      by (rule that[of "[]"]) (simp_all add: href_or_empty_absent[OF a] e)
  next
    assume a: "target_of props = Some (PStr target)" and w: "\<forall>c\<in>set target. isWhiteSpace c"
    show ?thesis
      by (rule that[of target]) (simp_all add: href_or_empty_string[OF a] trim_all_white[OF w] e)
  next
    assume a: "target_of props = Some (PStr target)" and w: "\<not> isLocalHref (trim target)"
    show ?thesis
    proof (rule that[of target])
      show "href_or_empty props = Inr target" by (rule href_or_empty_string[OF a])
      show "\<not> isLocalHref (trim target)" by (rule w)
      show "target_of props = None \<or> (\<forall>c\<in>set target. isWhiteSpace c) \<longrightarrow> trim target = []"
        using a by (auto simp: trim_all_white)
    qed
  qed
  have v: "\<And>ws. updateContentLinks_visitor env sourcePath ws tagName props kids = Inr (ws, props)"
    using links_visitor_non_local[OF assms(1) raw nl] .
  show ?thesis
    using v links_unchanged_in_tree[OF v[of "[]"]] raw blank by blast
qed

text \<open>
  A target that is local as written (it starts with a blank and ends in \<open>.md\<close>) and a
  fragment once trimmed; and an anchor without properties.
\<close>

definition padded_fragment :: node where
  "padded_fragment = Element ''a'' (Some [(''href'', PStr '' #notes.md'')]) []"

lemma padded_fragment_eval:
  "updateContentLinks env_none (Root [padded_fragment, Element ''a'' None []]) ''/docs/bar.mdx'' =
     Inr (Root [padded_fragment, Element ''a'' None []], [])"
  by code_simp

lemma padded_fragment_facts:
  "toLowerCase ''a'' = ''a''" "isLocalHref '' #notes.md''" "\<not> isLocalHref (trim '' #notes.md'')"
  "endsWith (toLowerCase '' #notes.md'') ''.md''"
  by code_simp+

text \<open>C10 at the padded fragment and at the anchor without properties.\<close>

theorem blank_links_untouched_witness:
  "isLocalHref '' #notes.md'' \<and> endsWith (toLowerCase '' #notes.md'') ''.md'' \<and>
   updateContentLinks_visitor env_none ''/docs/bar.mdx'' [] ''a''
     (Some [(''href'', PStr '' #notes.md'')]) [] = Inr ([], Some [(''href'', PStr '' #notes.md'')]) \<and>
   updateContentLinks_visitor env_none ''/docs/bar.mdx'' [] ''a'' None [] = Inr ([], None) \<and>
   (\<exists>raw. href_or_empty None = Inr raw \<and> trim raw = [])"
proof -
  have t: "target_of (Some [(''href'', PStr '' #notes.md'')]) = Some (PStr '' #notes.md'')"
    by (simp add: target_of_def)
  have n: "target_of None = None" by (simp add: target_of_def)
  from blank_links_untouched[OF padded_fragment_facts(1), of "Some [(''href'', PStr '' #notes.md'')]"
      "'' #notes.md''" env_none "''/docs/bar.mdx''" "[]" "[]"]
    t padded_fragment_facts(3)
  have a: "updateContentLinks_visitor env_none ''/docs/bar.mdx'' [] ''a''
     (Some [(''href'', PStr '' #notes.md'')]) [] = Inr ([], Some [(''href'', PStr '' #notes.md'')])"
    by blast
  from blank_links_untouched[OF padded_fragment_facts(1), of None "[]" env_none "''/docs/bar.mdx''" "[]" "[]"] n
  have b: "updateContentLinks_visitor env_none ''/docs/bar.mdx'' [] ''a'' None [] = Inr ([], None)"
    "\<exists>raw. href_or_empty None = Inr raw \<and> trim raw = []"
    by blast+
  show ?thesis using a b padded_fragment_facts by blast
qed

text \<open>
  C4 (as amended). An anchor whose trimmed target is local, ends (in any case) in
  \<open>.md\<close> or \<open>.mdx\<close> and resolves, against the directory of the source path, to a path
  that does not exist: the visitor returns normally, with the anchor's properties unchanged
  and one more warning, which contains the trimmed target and the source path; in every
  tree that \<open>updateContentLinks\<close> returns the anchor is unchanged and the warning is among
  the warnings.
\<close>

theorem broken_link_warns:
  assumes "toLowerCase tagName = ''a''"
    and "target_of props = Some (PStr target)"
    and "isLocalHref (trim target)"
    and "endsWith (toLowerCase (trim target)) ''.mdx'' \<or> endsWith (toLowerCase (trim target)) ''.md''"
    and "\<not> existsSync env (resolve env [dirname sourcePath, trim target])"
  shows "updateContentLinks_visitor env sourcePath ws tagName props kids =
           Inr (ws @ [link_warning (trim target) sourcePath], props) \<and>
         string_includes (link_warning (trim target) sourcePath) (trim target) \<and>
         string_includes (link_warning (trim target) sourcePath) sourcePath \<and>
         (\<forall>mdast mdast' warnings i.
            updateContentLinks env mdast sourcePath = Inr (mdast', warnings) \<and>
            i < length (elements mdast) \<and> elements mdast ! i = (tagName, props, kids) \<longrightarrow>
            i < length (elements mdast') \<and>
            tag_and_properties (elements mdast' ! i) = (tagName, props) \<and>
            link_warning (trim target) sourcePath \<in> set warnings)"
proof -
  have v: "\<And>ws. updateContentLinks_visitor env sourcePath ws tagName props kids =
           Inr (ws @ [link_warning (trim target) sourcePath], props)"
    using assms by (simp add: updateContentLinks_visitor_def Let_def href_or_empty_string)
  have i1: "string_includes (link_warning (trim target) sourcePath) (trim target)"
    unfolding link_warning_def
    using string_includes_append[of "[CHR 0x0A] @ ''The link \"''" "trim target"] by simp
  have i2: "string_includes (link_warning (trim target) sourcePath) sourcePath"
    unfolding link_warning_def
    using string_includes_append[of "[CHR 0x0A] @ ''The link \"'' @ trim target @ ''\", found within \"''" sourcePath]
    by simp
  show ?thesis
    using v[of ws] i1 i2 links_unchanged_in_tree[OF v[of "[]", simplified]] by auto
qed

text \<open>A link to a file that does not exist, as written and with a leading blank.\<close>

definition missing_link :: node where
  "missing_link = Element ''a'' (Some [(''href'', PStr ''./missing.md'')]) [Text ''gone'']"

definition padded_missing_link :: node where
  "padded_missing_link = Element ''a'' (Some [(''href'', PStr '' ./missing.md'')]) [Text ''gone'']"

lemma missing_link_facts:
  "toLowerCase ''a'' = ''a''"
  "trim ''./missing.md'' = ''./missing.md''"
  "isLocalHref ''./missing.md''"
  "endsWith (toLowerCase ''./missing.md'') ''.md''"
  "\<not> existsSync env_none (resolve env_none [dirname ''/docs/bar.mdx'', ''./missing.md''])"
  by code_simp+

lemma missing_link_eval:
  "updateContentLinks env_none (Root [missing_link]) ''/docs/bar.mdx'' =
     Inr (Root [missing_link], [link_warning ''./missing.md'' ''/docs/bar.mdx''])"
  by code_simp

text \<open>C4 at the link \<open>./missing.md\<close> in \<open>/docs/bar.mdx\<close>.\<close>

theorem broken_link_warns_witness:
  "updateContentLinks env_none (Root [missing_link]) ''/docs/bar.mdx'' =
     Inr (Root [missing_link], [link_warning ''./missing.md'' ''/docs/bar.mdx'']) \<and>
   updateContentLinks_visitor env_none ''/docs/bar.mdx'' [] ''a''
     (Some [(''href'', PStr ''./missing.md'')]) [Text ''gone''] =
     Inr ([link_warning ''./missing.md'' ''/docs/bar.mdx''], Some [(''href'', PStr ''./missing.md'')]) \<and>
   string_includes (link_warning ''./missing.md'' ''/docs/bar.mdx'') ''./missing.md'' \<and>
   string_includes (link_warning ''./missing.md'' ''/docs/bar.mdx'') ''/docs/bar.mdx''"
proof -
  have t: "target_of (Some [(''href'', PStr ''./missing.md'')]) = Some (PStr ''./missing.md'')"
    by (simp add: target_of_def)
  have l: "isLocalHref (trim ''./missing.md'')"
    using missing_link_facts(2,3) by simp
  have e: "endsWith (toLowerCase (trim ''./missing.md'')) ''.mdx'' \<or>
           endsWith (toLowerCase (trim ''./missing.md'')) ''.md''"
    using missing_link_facts(2,4) by simp
  have x: "\<not> existsSync env_none (resolve env_none [dirname ''/docs/bar.mdx'', trim ''./missing.md''])"
    using missing_link_facts(2,5) by simp
  from broken_link_warns[OF missing_link_facts(1) t l e x, of "[]" "[Text ''gone'']"]
  show ?thesis using missing_link_eval missing_link_facts(2) by simp
qed

text \<open>
  C4 as stated fails for a target with a leading blank: the warning holds the trimmed
  target, and the attribute's own text does not occur in it.
\<close>

theorem broken_link_warning_omits_padding:
  "updateContentLinks env_none (Root [padded_missing_link]) ''/docs/bar.mdx'' =
     Inr (Root [padded_missing_link], [link_warning ''./missing.md'' ''/docs/bar.mdx'']) \<and>
   \<not> string_includes (link_warning ''./missing.md'' ''/docs/bar.mdx'') '' ./missing.md''"
  by code_simp

text \<open>An environment in which \<open>/docs/foo.mdx\<close> is the only file.\<close>

definition env_foo :: node_env where
  "env_foo = \<lparr>cwd = ''/'', existsSync = (\<lambda>path. path = ''/docs/foo.mdx'')\<rparr>"

text \<open>
  C3. The link \<open>./foo.mdx\<close> in \<open>/docs/bar.mdx\<close> becomes \<open>./foo\<close>. With a leading
  blank in the attribute the same file is found, and the attribute is cut to the length of
  the trimmed target less four: \<open> ./fo\<close>, not the attribute less its extension.
\<close>

theorem md_link_cut_by_trimmed_length:
  "updateContentLinks env_foo
     (Root [Element ''a'' (Some [(''href'', PStr ''./foo.mdx'')]) []]) ''/docs/bar.mdx'' =
     Inr (Root [Element ''a'' (Some [(''href'', PStr ''./foo'')]) []], []) \<and>
   resolve env_foo [dirname ''/docs/bar.mdx'', trim '' ./foo.mdx''] = ''/docs/foo.mdx'' \<and>
   updateContentLinks env_foo
     (Root [Element ''a'' (Some [(''href'', PStr '' ./foo.mdx'')]) []]) ''/docs/bar.mdx'' =
     Inr (Root [Element ''a'' (Some [(''href'', PStr '' ./fo'')]) []], [])"
  by code_simp

text \<open>
  What the resolver writes in general: the first characters of the attribute as written,
  as many as the trimmed target has without its extension. For an attribute without
  leading white space that is the attribute less its extension and trailing white space.
\<close>

lemma existing_md_link_rewritten:
  assumes "toLowerCase tagName = ''a''"
    and "map_of ps ''href'' = Some (PStr target)"
    and "isLocalHref (trim target)"
    and "endsWith (toLowerCase (trim target)) ''.mdx'' \<or> endsWith (toLowerCase (trim target)) ''.md''"
    and "existsSync env (resolve env [dirname sourcePath, trim target])"
  shows "updateContentLinks_visitor env sourcePath ws tagName (Some ps) kids =
           Inr (ws, Some (AList.update ''href''
                  (PStr (take (length (trim target) -
                           (if endsWith (toLowerCase (trim target)) ''.mdx'' then 4 else 3)) target))
                  ps))"
proof -
  have t: "target_of (Some ps) = Some (PStr target)"
    using assms(2) by (simp add: target_of_def)
  have l: "endsWith (toLowerCase (trim target)) ''.mdx'' \<Longrightarrow> 4 \<le> length (trim target)"
    by (simp add: endsWith_def toLowerCase_def)
  have l3: "endsWith (toLowerCase (trim target)) ''.md'' \<Longrightarrow> 3 \<le> length (trim target)"
    by (simp add: endsWith_def toLowerCase_def)
  have n4: "endsWith (toLowerCase (trim target)) ''.mdx'' \<Longrightarrow>
              nat (int (length (trim target)) - 4) = length (trim target) - 4"
    by simp
  have n3: "nat (int (length (trim target)) - 3) = length (trim target) - 3"
    by simp
  show ?thesis
    using assms n4 n3
    by (auto simp: updateContentLinks_visitor_def Let_def href_or_empty_string[OF t]
                   cut_href_def substring0_def)
qed

section \<open>Properties of the Heading Slugger\<close>

text \<open>
  The identifier attribute of an element; the elements that the heading pass gives a
  slug (a heading with a properties object and no identifier that counts as set); and the
  outline entry that belongs to such an element, read off the element and its properties
  after the pass.
\<close>

definition id_of :: "properties option \<Rightarrow> prop_value option" where
  "id_of props = (case props of None \<Rightarrow> None | Some ps \<Rightarrow> map_of ps ''id'')"

definition receives_slug :: "element \<Rightarrow> bool" where
  "receives_slug el =
     (headingRank (fst el) \<noteq> None \<and> fst (snd el) \<noteq> None \<and> \<not> hasProperty (fst (snd el)) ''id'')"

definition entry_of :: "element \<Rightarrow> properties option \<Rightarrow> PageHeading" where
  "entry_of el props' =
     \<lparr>heading_text = toString (Element (fst el) (fst (snd el)) (snd (snd el))),
      heading_id = (case id_of props' of Some (PStr s) \<Rightarrow> s | _ \<Rightarrow> []),
      heading_level = (case headingRank (fst el) of Some l \<Rightarrow> l | None \<Rightarrow> 0)\<rparr>"

lemma hasProperty_id_iff:
  "hasProperty props ''id'' = (\<exists>v. id_of props = Some v \<and> v \<noteq> PNull \<and> v \<noteq> PBool False)"
  by (auto simp: hasProperty_def id_of_def split: option.splits)

lemma headings_visitor_skip:
  "\<not> receives_slug (tagName, props, kids) \<Longrightarrow>
     exportContentHeadings_visitor st tagName props kids = Inr (st, props)"
  by (auto simp: exportContentHeadings_visitor_def receives_slug_def split: option.splits prod.splits)

lemma headings_visitor_slug:
  assumes "receives_slug (tagName, props, kids)"
  shows "\<exists>ps level. props = Some ps \<and> headingRank tagName = Some level \<and>
     exportContentHeadings_visitor (slugs, headings) tagName props kids =
       Inr ((fst (slug slugs (toString (Element tagName props kids))),
             headings @ [\<lparr>heading_text = toString (Element tagName props kids),
                          heading_id = snd (slug slugs (toString (Element tagName props kids))),
                          heading_level = level\<rparr>]),
            Some (AList.update ''id''
                    (PStr (snd (slug slugs (toString (Element tagName props kids))))) ps))"
  using assms
  by (auto simp: exportContentHeadings_visitor_def receives_slug_def Let_def
           split: option.splits prod.splits)

lemma id_of_update [simp]: "id_of (Some (AList.update ''id'' v ps)) = Some v"
  by (simp add: id_of_def update_conv')

lemma headings_run:
  "run_visitor exportContentHeadings_visitor (slugs, headings) els = Inr ((slugs', outline), ps) \<Longrightarrow>
     length ps = length els \<and>
     outline = headings @ map (\<lambda>(el, p'). entry_of el p')
                            (filter (\<lambda>(el, p'). receives_slug el) (zip els ps)) \<and>
     (\<forall>i<length els. \<not> receives_slug (els ! i) \<longrightarrow> ps ! i = fst (snd (els ! i)))"
proof (induction els arbitrary: slugs headings ps)
  case Nil
  then show ?case by auto
next
  case (Cons el els)
  obtain tagName props kids where el: "el = (tagName, props, kids)" by (cases el) auto
  from Cons.prems obtain slugs1 headings1 p1 ps1 where
    v: "exportContentHeadings_visitor (slugs, headings) tagName props kids = Inr ((slugs1, headings1), p1)"
    and r: "run_visitor exportContentHeadings_visitor (slugs1, headings1) els = Inr ((slugs', outline), ps1)"
    and ps: "ps = p1 # ps1"
    by (auto simp: el split: sum.splits)
  note ih = Cons.IH[OF r]
  have nth: "\<forall>i<length (el # els). \<not> receives_slug ((el # els) ! i) \<longrightarrow>
               (p1 # ps1) ! i = fst (snd ((el # els) ! i))"
    if "\<not> receives_slug el \<longrightarrow> p1 = props"
  proof (intro allI impI)
    fix i assume "i < length (el # els)" "\<not> receives_slug ((el # els) ! i)"
    then show "(p1 # ps1) ! i = fst (snd ((el # els) ! i))"
      using ih that el by (cases i) auto
  qed
  show ?case
  proof (cases "receives_slug el")
    case True
    from headings_visitor_slug[OF True[unfolded el], of slugs headings] v
    have "headings1 = headings @ [entry_of el p1]"
      by (auto simp: entry_of_def el)
    with ih True ps nth show ?thesis by auto
  next
    case False
    from headings_visitor_skip[OF False[unfolded el], of "(slugs, headings)"] v
    have "headings1 = headings" "p1 = props" by auto
    with ih False ps nth show ?thesis by auto
  qed
qed

lemma headings_visitor_total:
  "\<exists>r. exportContentHeadings_visitor st tagName props kids = Inr r"
  by (auto simp: exportContentHeadings_visitor_def Let_def split: option.splits prod.splits)

lemma exportContentHeadings_run:
  "\<exists>slugs' outline kids'.
     exportContentHeadings slugs mdast =
       Inr (slugs', Root (MdxjsEsm ''headings'' (JArray (map heading_value outline)) # kids')) \<and>
     run_visitor exportContentHeadings_visitor ([], []) (elements mdast) =
       Inr ((slugs', outline), map (fst \<circ> snd) (elements_nodes kids')) \<and>
     map fst (elements_nodes kids') = map fst (elements mdast)"
proof -
  from visit_total(2)[of "root_children mdast" exportContentHeadings_visitor "([], [])"]
  obtain slugs' outline kids' where
    v: "visit_nodes exportContentHeadings_visitor ([], []) (root_children mdast) =
          Inr ((slugs', outline), kids')"
    using headings_visitor_total by (metis surj_pair)
  from visit_run(2)[OF v] have
    "run_visitor exportContentHeadings_visitor ([], []) (elements mdast) =
       Inr ((slugs', outline), map (fst \<circ> snd) (elements_nodes kids'))"
    "map fst (elements_nodes kids') = map fst (elements mdast)"
    by (simp_all add: elements_def)
  moreover have "exportContentHeadings slugs mdast =
       Inr (slugs', Root (MdxjsEsm ''headings'' (JArray (map heading_value outline)) # kids'))"
    using v by (simp add: exportContentHeadings_def visit_def reset_def createExport_def)
  ultimately show ?thesis by blast
qed

lemma exportContentHeadings_outline:
  "\<exists>slugs' outline kids'.
     exportContentHeadings slugs mdast =
       Inr (slugs', Root (MdxjsEsm ''headings'' (JArray (map heading_value outline)) # kids')) \<and>
     length (elements_nodes kids') = length (elements mdast) \<and>
     (\<forall>i<length (elements mdast).
        fst (elements_nodes kids' ! i) = fst (elements mdast ! i) \<and>
        (\<not> receives_slug (elements mdast ! i) \<longrightarrow>
           fst (snd (elements_nodes kids' ! i)) = fst (snd (elements mdast ! i)))) \<and>
     outline = map (\<lambda>(el, el'). entry_of el (fst (snd el')))
                   (filter (\<lambda>(el, el'). receives_slug el) (zip (elements mdast) (elements_nodes kids')))"
proof -
  from exportContentHeadings_run[of slugs mdast] obtain slugs' outline kids' where
    e: "exportContentHeadings slugs mdast =
       Inr (slugs', Root (MdxjsEsm ''headings'' (JArray (map heading_value outline)) # kids'))" and
    r: "run_visitor exportContentHeadings_visitor ([], []) (elements mdast) =
       Inr ((slugs', outline), map (fst \<circ> snd) (elements_nodes kids'))" and
    t: "map fst (elements_nodes kids') = map fst (elements mdast)"
    by blast
  from t have len: "length (elements_nodes kids') = length (elements mdast)"
    by (metis length_map)
  from t len have tags: "\<forall>i<length (elements mdast). fst (elements_nodes kids' ! i) = fst (elements mdast ! i)"
    by (metis nth_map)
  from headings_run[OF r] have
    o: "outline = map (\<lambda>(el, p'). entry_of el p')
          (filter (\<lambda>(el, p'). receives_slug el)
             (zip (elements mdast) (map (fst \<circ> snd) (elements_nodes kids'))))" and
    f: "\<forall>i<length (elements mdast). \<not> receives_slug (elements mdast ! i) \<longrightarrow>
          map (fst \<circ> snd) (elements_nodes kids') ! i = fst (snd (elements mdast ! i))"
    by auto
  have z: "zip (elements mdast) (map (fst \<circ> snd) (elements_nodes kids')) =
           map (\<lambda>(el, el'). (el, fst (snd el'))) (zip (elements mdast) (elements_nodes kids'))"
    by (simp add: zip_map2 case_prod_unfold)
  have o': "outline = map (\<lambda>(el, el'). entry_of el (fst (snd el')))
                   (filter (\<lambda>(el, el'). receives_slug el) (zip (elements mdast) (elements_nodes kids')))"
    unfolding o z by (simp add: filter_map comp_def case_prod_unfold)
  from f len have f': "\<forall>i<length (elements mdast). \<not> receives_slug (elements mdast ! i) \<longrightarrow>
          fst (snd (elements_nodes kids' ! i)) = fst (snd (elements mdast ! i))"
    by simp
  from e len tags f' o' show ?thesis by blast
qed

subsection \<open>Slugs are fresh\<close>








subsection \<open>Suffixes count up\<close>







lemma suffixed_eq_iff [simp]: "(suffixed b n = suffixed b m) = (n = m)"
  using suffixed_inj by blast

lemma suffixed_neq' [simp]: "b \<noteq> suffixed b n" "suffixed b n \<noteq> b"
  using suffixed_neq[of b n] by auto






lemma headings_run_assigned:
  "run_visitor exportContentHeadings_visitor st els = Inr (st', ps) \<Longrightarrow>
     (\<forall>i<length els. receives_slug (els ! i) \<longrightarrow>
        (\<exists>ps0 ident. fst (snd (els ! i)) = Some ps0 \<and>
                      ps ! i = Some (AList.update ''id'' (PStr ident) ps0)))"
proof (induction els arbitrary: st ps)
  case Nil
  then show ?case by simp
next
  case (Cons el els)
  obtain tagName props kids where el: "el = (tagName, props, kids)" by (cases el) auto
  obtain slugs headings where st: "st = (slugs, headings)" by (cases st) auto
  from Cons.prems obtain st1 p1 ps1 where
    v: "exportContentHeadings_visitor st tagName props kids = Inr (st1, p1)"
    and r: "run_visitor exportContentHeadings_visitor st1 els = Inr (st', ps1)"
    and ps: "ps = p1 # ps1"
    by (auto simp: el split: sum.splits)
  note ih = Cons.IH[OF r]
  have first: "receives_slug el \<longrightarrow>
        (\<exists>ps0 ident. props = Some ps0 \<and> p1 = Some (AList.update ''id'' (PStr ident) ps0))"
  proof
    assume "receives_slug el"
    then have "receives_slug (tagName, props, kids)" by (simp add: el)
    from headings_visitor_slug[OF this, of slugs headings] v
    show "\<exists>ps0 ident. props = Some ps0 \<and> p1 = Some (AList.update ''id'' (PStr ident) ps0)"
      by (auto simp: st)
  qed
  show ?case
  proof (intro allI impI)
    fix i assume "i < length (el # els)" "receives_slug ((el # els) ! i)"
    then show "\<exists>ps0 ident. fst (snd ((el # els) ! i)) = Some ps0 \<and>
                      ps ! i = Some (AList.update ''id'' (PStr ident) ps0)"
      using ih first ps el by (cases i) auto
  qed
qed

lemma exportContentHeadings_assigned:
  assumes "exportContentHeadings slugs mdast = Inr (slugs', Root (binding # kids'))"
    and "i < length (elements mdast)" and "receives_slug (elements mdast ! i)"
  shows "\<exists>ps0 ident. fst (snd (elements mdast ! i)) = Some ps0 \<and>
           fst (snd (elements_nodes kids' ! i)) = Some (AList.update ''id'' (PStr ident) ps0)"
proof -
  from exportContentHeadings_run[of slugs mdast] assms(1) obtain outline where
    r: "run_visitor exportContentHeadings_visitor ([], []) (elements mdast) =
       Inr ((slugs', outline), map (fst \<circ> snd) (elements_nodes kids'))" and
    t: "map fst (elements_nodes kids') = map fst (elements mdast)"
    by auto
  from t have len: "length (elements_nodes kids') = length (elements mdast)"
    by (metis length_map)
  from headings_run_assigned[OF r] assms(2,3) len show ?thesis by auto
qed

lemma heading_value_inj: "heading_value h = heading_value h' \<Longrightarrow> h = h'"
  by (cases h, cases h') (simp add: heading_value_def)

lemma map_heading_value_inj: "map heading_value hs = map heading_value hs' \<Longrightarrow> hs = hs'"
  using heading_value_inj by (metis injI inj_map_eq_map)












text \<open>
  C2. The heading pass returns for every document. A heading (\<open>h1\<close> to \<open>h6\<close>) whose
  identifier attribute is set to a value other than \<^verbatim>\<open>null\<close> and \<^verbatim>\<open>false\<close> receives no
  slug and keeps its tag name and all its properties. Every element that receives a slug
  had a properties object and has the slug as its identifier afterwards. The outline
  holds, in document order, one entry for each element that receives a slug and no other
  entry: the element's text, the identifier written to it, and its level.
\<close>

theorem headings_with_id_kept:
  "\<exists>slugs' outline kids'.
     exportContentHeadings slugs mdast =
       Inr (slugs', Root (MdxjsEsm ''headings'' (JArray (map heading_value outline)) # kids')) \<and>
     length (elements_nodes kids') = length (elements mdast) \<and>
     (\<forall>i<length (elements mdast).
        headingRank (fst (elements mdast ! i)) \<noteq> None \<and>
        (\<exists>v. id_of (fst (snd (elements mdast ! i))) = Some v \<and> v \<noteq> PNull \<and> v \<noteq> PBool False) \<longrightarrow>
        \<not> receives_slug (elements mdast ! i) \<and>
        tag_and_properties (elements_nodes kids' ! i) = tag_and_properties (elements mdast ! i)) \<and>
     (\<forall>i<length (elements mdast).
        receives_slug (elements mdast ! i) \<longrightarrow>
        (\<exists>ps0 ident. fst (snd (elements mdast ! i)) = Some ps0 \<and>
           fst (snd (elements_nodes kids' ! i)) = Some (AList.update ''id'' (PStr ident) ps0))) \<and>
     outline = map (\<lambda>(el, el'). entry_of el (fst (snd el')))
                   (filter (\<lambda>(el, el'). receives_slug el)
                      (zip (elements mdast) (elements_nodes kids')))"
proof -
  from exportContentHeadings_outline[of slugs mdast] obtain slugs' outline kids' where
    e: "exportContentHeadings slugs mdast =
       Inr (slugs', Root (MdxjsEsm ''headings'' (JArray (map heading_value outline)) # kids'))" and
    len: "length (elements_nodes kids') = length (elements mdast)" and
    f: "\<forall>i<length (elements mdast).
        fst (elements_nodes kids' ! i) = fst (elements mdast ! i) \<and>
        (\<not> receives_slug (elements mdast ! i) \<longrightarrow>
           fst (snd (elements_nodes kids' ! i)) = fst (snd (elements mdast ! i)))" and
    o: "outline = map (\<lambda>(el, el'). entry_of el (fst (snd el')))
                   (filter (\<lambda>(el, el'). receives_slug el)
                      (zip (elements mdast) (elements_nodes kids')))"
    by blast
  have k: "\<forall>i<length (elements mdast).
        headingRank (fst (elements mdast ! i)) \<noteq> None \<and>
        (\<exists>v. id_of (fst (snd (elements mdast ! i))) = Some v \<and> v \<noteq> PNull \<and> v \<noteq> PBool False) \<longrightarrow>
        \<not> receives_slug (elements mdast ! i) \<and>
        tag_and_properties (elements_nodes kids' ! i) = tag_and_properties (elements mdast ! i)"
    using f by (auto simp: receives_slug_def hasProperty_id_iff tag_and_properties_def)
  have a: "\<forall>i<length (elements mdast).
        receives_slug (elements mdast ! i) \<longrightarrow>
        (\<exists>ps0 ident. fst (snd (elements mdast ! i)) = Some ps0 \<and>
           fst (snd (elements_nodes kids' ! i)) = Some (AList.update ''id'' (PStr ident) ps0))"
    using exportContentHeadings_assigned[OF e] by blast
  from e len k a o show ?thesis by blast
qed

text \<open>
  C9. A heading that has no properties object receives no slug: after the pass it still
  has no properties object (so no identifier), and the outline, which holds an entry for
  each element that receives a slug and no other, has none for it.
\<close>

theorem headings_without_properties_skipped:
  "\<exists>slugs' outline kids'.
     exportContentHeadings slugs mdast =
       Inr (slugs', Root (MdxjsEsm ''headings'' (JArray (map heading_value outline)) # kids')) \<and>
     length (elements_nodes kids') = length (elements mdast) \<and>
     (\<forall>i<length (elements mdast).
        headingRank (fst (elements mdast ! i)) \<noteq> None \<and> fst (snd (elements mdast ! i)) = None \<longrightarrow>
        \<not> receives_slug (elements mdast ! i) \<and>
        tag_and_properties (elements_nodes kids' ! i) = (fst (elements mdast ! i), None)) \<and>
     outline = map (\<lambda>(el, el'). entry_of el (fst (snd el')))
                   (filter (\<lambda>(el, el'). receives_slug el)
                      (zip (elements mdast) (elements_nodes kids')))"
proof -
  from exportContentHeadings_outline[of slugs mdast] obtain slugs' outline kids' where
    e: "exportContentHeadings slugs mdast =
       Inr (slugs', Root (MdxjsEsm ''headings'' (JArray (map heading_value outline)) # kids'))" and
    len: "length (elements_nodes kids') = length (elements mdast)" and
    f: "\<forall>i<length (elements mdast).
        fst (elements_nodes kids' ! i) = fst (elements mdast ! i) \<and>
        (\<not> receives_slug (elements mdast ! i) \<longrightarrow>
           fst (snd (elements_nodes kids' ! i)) = fst (snd (elements mdast ! i)))" and
    o: "outline = map (\<lambda>(el, el'). entry_of el (fst (snd el')))
                   (filter (\<lambda>(el, el'). receives_slug el)
                      (zip (elements mdast) (elements_nodes kids')))"
    by blast
  have k: "\<forall>i<length (elements mdast).
        headingRank (fst (elements mdast ! i)) \<noteq> None \<and> fst (snd (elements mdast ! i)) = None \<longrightarrow>
        \<not> receives_slug (elements mdast ! i) \<and>
        tag_and_properties (elements_nodes kids' ! i) = (fst (elements mdast ! i), None)"
    using f by (auto simp: receives_slug_def tag_and_properties_def)
  from e len k o show ?thesis by blast
qed

text \<open>
  A heading with an identifier, one without (upper-case tag, nested markup), and one
  without a properties object.
\<close>

definition doc_ids :: root where
  "doc_ids = Root [Element ''h1'' (Some [(''id'', PStr ''intro'')]) [Text ''Intro''],
                   Element ''H2'' (Some [(''class'', PStr ''t'')])
                     [Text ''Usage '', Element ''em'' None [Text ''notes'']],
                   Element ''h3'' None [Text ''Bare'']]"

definition usage_heading :: PageHeading where
  "usage_heading = \<lparr>heading_text = ''Usage notes'', heading_id = ''usage-notes'', heading_level = 2\<rparr>"

lemma doc_ids_eval:
  "exportContentHeadings [] doc_ids =
     Inr ([(''usage-notes'', 0)],
          Root [MdxjsEsm ''headings'' (JArray (map heading_value [usage_heading])),
                Element ''h1'' (Some [(''id'', PStr ''intro'')]) [Text ''Intro''],
                Element ''H2'' (Some [(''class'', PStr ''t''), (''id'', PStr ''usage-notes'')])
                  [Text ''Usage '', Element ''em'' None [Text ''notes'']],
                Element ''h3'' None [Text ''Bare'']])"
  by code_simp

lemma doc_ids_ranks: "headingRank ''h1'' = Some 1" "headingRank ''h3'' = Some 3"
  by code_simp+

lemma doc_ids_elements:
  "elements doc_ids =
     [(''h1'', Some [(''id'', PStr ''intro'')], [Text ''Intro'']),
      (''H2'', Some [(''class'', PStr ''t'')], [Text ''Usage '', Element ''em'' None [Text ''notes'']]),
      (''em'', None, [Text ''notes'']),
      (''h3'', None, [Text ''Bare''])]"
  by (simp add: elements_def doc_ids_def)

text \<open>C2 at the first heading of that document.\<close>

theorem headings_with_id_kept_witness:
  "headingRank ''h1'' = Some 1 \<and>
   id_of (Some [(''id'', PStr ''intro'')]) = Some (PStr ''intro'') \<and>
   (\<exists>slugs' kids'.
      exportContentHeadings [] doc_ids =
        Inr (slugs', Root (MdxjsEsm ''headings'' (JArray (map heading_value [usage_heading])) # kids')) \<and>
      tag_and_properties (elements_nodes kids' ! 0) = (''h1'', Some [(''id'', PStr ''intro'')]))"
proof -
  from headings_with_id_kept[of "[]" doc_ids] obtain slugs' outline kids' where
    e: "exportContentHeadings [] doc_ids =
       Inr (slugs', Root (MdxjsEsm ''headings'' (JArray (map heading_value outline)) # kids'))" and
    k: "\<forall>i<length (elements doc_ids).
        headingRank (fst (elements doc_ids ! i)) \<noteq> None \<and>
        (\<exists>v. id_of (fst (snd (elements doc_ids ! i))) = Some v \<and> v \<noteq> PNull \<and> v \<noteq> PBool False) \<longrightarrow>
        \<not> receives_slug (elements doc_ids ! i) \<and>
        tag_and_properties (elements_nodes kids' ! i) = tag_and_properties (elements doc_ids ! i)"
    by blast
  have i: "id_of (Some [(''id'', PStr ''intro'')]) = Some (PStr ''intro'')"
    by (simp add: id_of_def)
  from k[rule_format, of 0] i doc_ids_ranks(1)
  have t: "tag_and_properties (elements_nodes kids' ! 0) = (''h1'', Some [(''id'', PStr ''intro'')])"
    by (simp add: doc_ids_elements tag_and_properties_def)
  from e doc_ids_eval have "map heading_value outline = map heading_value [usage_heading]"
    by simp
  then have "outline = [usage_heading]" by (rule map_heading_value_inj)
  with e t i doc_ids_ranks(1) show ?thesis by blast
qed

text \<open>C9 at the last heading of that document.\<close>

theorem headings_without_properties_skipped_witness:
  "headingRank ''h3'' = Some 3 \<and>
   (\<exists>slugs' kids'.
      exportContentHeadings [] doc_ids =
        Inr (slugs', Root (MdxjsEsm ''headings'' (JArray (map heading_value [usage_heading])) # kids')) \<and>
      tag_and_properties (elements_nodes kids' ! 3) = (''h3'', None))"
proof -
  from headings_without_properties_skipped[of "[]" doc_ids] obtain slugs' outline kids' where
    e: "exportContentHeadings [] doc_ids =
       Inr (slugs', Root (MdxjsEsm ''headings'' (JArray (map heading_value outline)) # kids'))" and
    k: "\<forall>i<length (elements doc_ids).
        headingRank (fst (elements doc_ids ! i)) \<noteq> None \<and> fst (snd (elements doc_ids ! i)) = None \<longrightarrow>
        \<not> receives_slug (elements doc_ids ! i) \<and>
        tag_and_properties (elements_nodes kids' ! i) = (fst (elements doc_ids ! i), None)"
    by blast
  from k[rule_format, of 3] doc_ids_ranks(2)
  have t: "tag_and_properties (elements_nodes kids' ! 3) = (''h3'', None)"
    by (simp add: doc_ids_elements)
  from e doc_ids_eval have "map heading_value outline = map heading_value [usage_heading]"
    by simp
  then have "outline = [usage_heading]" by (rule map_heading_value_inj)
  with e t doc_ids_ranks(2) show ?thesis by blast
qed

section \<open>Properties of the Menu Breadcrumb Resolver\<close>

text \<open>
  The search as the specification words it: the paths of the menu section that are at most
  three items long, listed depth first in sequence order (an item before the paths through
  its sub-items, these before the next item), and the first of them that ends in an item
  whose \<open>href\<close> is the page's pathname.
\<close>

definition sub_items :: "menu_item \<Rightarrow> menu_item list" where
  "sub_items index = (case item_items index of None \<Rightarrow> [] | Some its \<Rightarrow> its)"

fun menu_paths :: "nat \<Rightarrow> menu_item list \<Rightarrow> menu_item list list" where
  "menu_paths 0 its = []"
| "menu_paths (Suc depth) [] = []"
| "menu_paths (Suc depth) (index # rest) =
     [index] # map ((#) index) (menu_paths depth (sub_items index)) @ menu_paths (Suc depth) rest"

definition section_items :: "build_context \<Rightarrow> string option \<Rightarrow> menu_item list" where
  "section_items ctx menuPathname =
     (case find (\<lambda>m. Some (menu_pathname m) = menuPathname) (menus ctx) of
        None \<Rightarrow> []
      | Some menu \<Rightarrow> (case menu_items menu of None \<Rightarrow> [] | Some its \<Rightarrow> its))"

definition first_match :: "string \<Rightarrow> menu_item list \<Rightarrow> PageBreadcrumb list" where
  "first_match pathname its =
     (case find (\<lambda>path. item_href (last path) = pathname) (menu_paths 3 its) of
        None \<Rightarrow> []
      | Some path \<Rightarrow> map breadcrumb_of path)"

lemma menu_paths_Nil [simp]: "menu_paths d [] = []"
  by (cases d) auto

lemma find_append:
  "find P (xs @ ys) = (case find P xs of None \<Rightarrow> find P ys | Some x \<Rightarrow> Some x)"
  by (induction xs) auto

lemma find_map_Cons:
  "find (\<lambda>path. item_href (last path) = p) (map ((#) a) (filter (\<lambda>q. q \<noteq> []) ps)) =
   map_option ((#) a) (find (\<lambda>path. item_href (last path) = p) (filter (\<lambda>q. q \<noteq> []) ps))"
  by (induction ps) auto

lemma menu_paths_nonempty: "q \<in> set (menu_paths d its) \<Longrightarrow> q \<noteq> []"
  by (induction d its rule: menu_paths.induct) auto

lemma filter_menu_paths: "filter (\<lambda>q. q \<noteq> []) (menu_paths d its) = menu_paths d its"
  by (simp add: filter_id_conv menu_paths_nonempty)

lemma find_prefixed:
  "find (\<lambda>path. item_href (last path) = p) (map ((#) a) (menu_paths d its)) =
   map_option ((#) a) (find (\<lambda>path. item_href (last path) = p) (menu_paths d its))"
  using find_map_Cons[of p a "menu_paths d its"] by (simp add: filter_menu_paths)

lemma breadcrumbs_C_paths:
  "breadcrumbs_C p a b its =
     map_option (\<lambda>path. [a, b] @ map breadcrumb_of path)
       (find (\<lambda>path. item_href (last path) = p) (menu_paths 1 its))"
  by (induction its) (auto simp: Let_def)

lemma breadcrumbs_B_paths:
  "breadcrumbs_B p a its =
     map_option (\<lambda>path. a # map breadcrumb_of path)
       (find (\<lambda>path. item_href (last path) = p) (menu_paths 2 its))"
proof (induction its)
  case Nil
  then show ?case by (simp add: numeral_2_eq_2)
next
  case (Cons index rest)
  have two: "menu_paths 2 (index # rest) =
      [index] # map ((#) index) (menu_paths 1 (sub_items index)) @ menu_paths 2 rest"
    by (simp add: numeral_2_eq_2)
  show ?case
    unfolding two using Cons
    by (cases "item_items index")
       (auto simp: Let_def find_append find_prefixed breadcrumbs_C_paths sub_items_def
             split: option.splits)
qed

lemma breadcrumbs_A_paths:
  "breadcrumbs_A p its =
     map_option (map breadcrumb_of)
       (find (\<lambda>path. item_href (last path) = p) (menu_paths 3 its))"
proof (induction its)
  case Nil
  then show ?case by (simp add: numeral_3_eq_3)
next
  case (Cons index rest)
  have three: "menu_paths 3 (index # rest) =
      [index] # map ((#) index) (menu_paths 2 (sub_items index)) @ menu_paths 3 rest"
    by (simp add: numeral_3_eq_3 numeral_2_eq_2)
  show ?case
    unfolding three using Cons
    by (cases "item_items index")
       (auto simp: Let_def find_append find_prefixed breadcrumbs_B_paths sub_items_def
             split: option.splits)
qed

definition menu_AB :: menu where
  "menu_AB = \<lparr>menu_pathname = ''/a'',
              menu_items = Some [MenuItem ''A'' ''/a'' (Some [MenuItem ''B'' ''/a/b'' None])]\<rparr>"

text \<open>
  C6. For every build context, tree, page pathname and menu pathname, the tree that
  \<open>exportBreadcrumbs\<close> returns is the given tree with one binding named
  \<open>breadcrumbs\<close> put in front of its children. The binding holds the breadcrumbs of the
  first path, in depth-first sequence order over three levels, whose last item has the
  page's pathname as its \<open>href\<close>, listed from the root item down; it holds the empty
  sequence when no such path exists (or the menu section is missing or has no items). For
  the menu \<open>[A /a [B /a/b]]\<close> and the pathname \<open>/a/b\<close> the binding is
  \<open>[{text: A, href: /a}, {text: B, href: /a/b}]\<close>.
\<close>

theorem exportBreadcrumbs_first_match:
  "exportBreadcrumbs ctx mdast pathname menuPathname =
     Root (MdxjsEsm ''breadcrumbs''
             (JArray (map breadcrumb_value (first_match pathname (section_items ctx menuPathname))))
           # root_children mdast)
   \<and> exportBreadcrumbs \<lparr>routes = [], menus = [menu_AB]\<rparr> mdast ''/a/b'' (Some ''/a'') =
     Root (MdxjsEsm ''breadcrumbs''
             (JArray [JObject [(''text'', JString ''A''), (''href'', JString ''/a'')],
                      JObject [(''text'', JString ''B''), (''href'', JString ''/a/b'')]])
           # root_children mdast)"
proof
  show "exportBreadcrumbs ctx mdast pathname menuPathname =
     Root (MdxjsEsm ''breadcrumbs''
             (JArray (map breadcrumb_value (first_match pathname (section_items ctx menuPathname))))
           # root_children mdast)"
    by (auto simp: exportBreadcrumbs_def first_match_def section_items_def breadcrumbs_A_paths
                   numeral_3_eq_3 createExport_def
             split: option.splits)
  show "exportBreadcrumbs \<lparr>routes = [], menus = [menu_AB]\<rparr> mdast ''/a/b'' (Some ''/a'') =
     Root (MdxjsEsm ''breadcrumbs''
             (JArray [JObject [(''text'', JString ''A''), (''href'', JString ''/a'')],
                      JObject [(''text'', JString ''B''), (''href'', JString ''/a/b'')]])
           # root_children mdast)"
    by (simp add: exportBreadcrumbs_def menu_AB_def breadcrumb_of_def breadcrumb_value_def
                  createExport_def)
qed

section \<open>Properties of the Sibling-Index Resolver\<close>

text \<open>
  One truncation, as the loop body does it: split on \<open>/\<close>, drop the last part, join.
\<close>

definition truncate :: "string \<Rightarrow> string" where
  "truncate p = join ''/'' (butlast (split CHR ''/'' p))"

definition menu_pathnames :: "build_context \<Rightarrow> string set" where
  "menu_pathnames ctx = menu_pathname ` set (menus ctx)"

lemma find_menu_None: "(find (\<lambda>m. menu_pathname m = p) ms = None) = (p \<notin> menu_pathname ` set ms)"
  by (induction ms) auto

lemma split_not_Nil [simp]: "split sep s \<noteq> []"
  by (induction s) (auto split: list.splits)

lemma split_no_sep: "sep \<notin> set seg \<Longrightarrow> split sep seg = [seg]"
  by (induction seg) auto

lemma split_append_sep:
  "sep \<notin> set seg \<Longrightarrow> split sep (p @ sep # seg) = split sep p @ [seg]"
  by (induction p) (auto simp: split_no_sep split: list.splits)

lemma join_Cons_Cons: "join sep ((c # p) # ps) = c # join sep (p # ps)"
  by (cases ps) auto

lemma join_split: "join [sep] (split sep s) = s"
proof (induction s)
  case Nil
  then show ?case by simp
next
  case (Cons c cs)
  then show ?case
    by (cases "split sep cs") (auto simp: join_Cons_Cons split: list.splits)
qed

lemma truncate_last_segment:
  "CHR ''/'' \<notin> set seg \<Longrightarrow> truncate (p @ ''/'' @ seg) = p"
  by (simp add: truncate_def split_append_sep join_split)

lemma truncate_no_slash: "CHR ''/'' \<notin> set seg \<Longrightarrow> truncate seg = ''''"
  by (simp add: truncate_def split_no_sep)

lemma getMenuPathname_from_iff:
  "getMenuPathname_from ctx i p = Some q \<longleftrightarrow>
     (\<exists>k. i + k < 9 \<and> q = (truncate ^^ k) p \<and> q \<in> menu_pathnames ctx \<and>
          (\<forall>j<k. (truncate ^^ j) p \<notin> menu_pathnames ctx \<and> (truncate ^^ Suc j) p \<noteq> ''/''))"
proof (induction ctx i p rule: getMenuPathname_from.induct)
  case (1 ctx i p)
  show ?case
  proof (cases "i < 9")
    case False
    then show ?thesis by (subst getMenuPathname_from.simps) simp
  next
    case i9: True
    show ?thesis
    proof (cases "p \<in> menu_pathnames ctx")
      case True
      then have f: "find (\<lambda>m. menu_pathname m = p) (menus ctx) \<noteq> None"
        by (simp add: find_menu_None menu_pathnames_def)
      have l: "getMenuPathname_from ctx i p = Some p"
        using i9 f by (subst getMenuPathname_from.simps) auto
      have "\<And>k. (\<forall>j<k. (truncate ^^ j) p \<notin> menu_pathnames ctx \<and> (truncate ^^ Suc j) p \<noteq> ''/'') \<Longrightarrow> k = 0"
      proof (rule ccontr)
        fix k assume a: "\<forall>j<k. (truncate ^^ j) p \<notin> menu_pathnames ctx \<and> (truncate ^^ Suc j) p \<noteq> ''/''" and "k \<noteq> 0"
        then have "(truncate ^^ 0) p \<notin> menu_pathnames ctx" by blast
        with True show False by simp
      qed
      then show ?thesis using l True i9
        by (metis (no_types, lifting) add.right_neutral funpow_0 not_less_zero option.inject)
    next
      case notin: False
      then have f: "find (\<lambda>m. menu_pathname m = p) (menus ctx) = None"
        by (simp add: find_menu_None menu_pathnames_def)
      show ?thesis
      proof (cases "truncate p = ''/''")
        case True
        have l: "getMenuPathname_from ctx i p = None"
          using i9 f True by (subst getMenuPathname_from.simps) (simp add: truncate_def Let_def)
        have "\<not> (\<exists>k. i + k < 9 \<and> q = (truncate ^^ k) p \<and> q \<in> menu_pathnames ctx \<and>
          (\<forall>j<k. (truncate ^^ j) p \<notin> menu_pathnames ctx \<and> (truncate ^^ Suc j) p \<noteq> ''/''))"
        proof
          assume "\<exists>k. i + k < 9 \<and> q = (truncate ^^ k) p \<and> q \<in> menu_pathnames ctx \<and>
          (\<forall>j<k. (truncate ^^ j) p \<notin> menu_pathnames ctx \<and> (truncate ^^ Suc j) p \<noteq> ''/'')"
          then obtain k where k: "q = (truncate ^^ k) p" "q \<in> menu_pathnames ctx"
            "\<forall>j<k. (truncate ^^ j) p \<notin> menu_pathnames ctx \<and> (truncate ^^ Suc j) p \<noteq> ''/''"
            by blast
          show False
          proof (cases k)
            case 0
            with k notin show False by simp
          next
            case (Suc k')
            with k(3) have "(truncate ^^ Suc 0) p \<noteq> ''/''" by blast
            with True show False by simp
          qed
        qed
        with l show ?thesis by simp
      next
        case nroot: False
        have l: "getMenuPathname_from ctx i p = getMenuPathname_from ctx (i + 1) (truncate p)"
          using i9 f nroot by (subst getMenuPathname_from.simps) (simp add: truncate_def Let_def)
        have nroot': "join ''/'' (butlast (split CHR ''/'' p)) \<noteq> ''/''"
          using nroot by (simp add: truncate_def)
        have ih: "getMenuPathname_from ctx (i + 1) (truncate p) = Some q \<longleftrightarrow>
          (\<exists>k. i + 1 + k < 9 \<and> q = (truncate ^^ k) (truncate p) \<and> q \<in> menu_pathnames ctx \<and>
          (\<forall>j<k. (truncate ^^ j) (truncate p) \<notin> menu_pathnames ctx \<and> (truncate ^^ Suc j) (truncate p) \<noteq> ''/''))"
          using "1.IH"[OF i9 f refl refl refl nroot', folded truncate_def] by simp
        have "(\<exists>k. i + 1 + k < 9 \<and> q = (truncate ^^ k) (truncate p) \<and> q \<in> menu_pathnames ctx \<and>
          (\<forall>j<k. (truncate ^^ j) (truncate p) \<notin> menu_pathnames ctx \<and> (truncate ^^ Suc j) (truncate p) \<noteq> ''/''))
          \<longleftrightarrow> (\<exists>k. i + k < 9 \<and> q = (truncate ^^ k) p \<and> q \<in> menu_pathnames ctx \<and>
          (\<forall>j<k. (truncate ^^ j) p \<notin> menu_pathnames ctx \<and> (truncate ^^ Suc j) p \<noteq> ''/''))"
          (is "?L \<longleftrightarrow> ?R")
        proof
          assume ?L
          then obtain k where k: "i + 1 + k < 9" "q = (truncate ^^ k) (truncate p)" "q \<in> menu_pathnames ctx"
            "\<forall>j<k. (truncate ^^ j) (truncate p) \<notin> menu_pathnames ctx \<and> (truncate ^^ Suc j) (truncate p) \<noteq> ''/''"
            by blast
          have "\<forall>j<Suc k. (truncate ^^ j) p \<notin> menu_pathnames ctx \<and> (truncate ^^ Suc j) p \<noteq> ''/''"
          proof (intro allI impI)
            fix j assume "j < Suc k"
            show "(truncate ^^ j) p \<notin> menu_pathnames ctx \<and> (truncate ^^ Suc j) p \<noteq> ''/''"
            proof (cases j)
              case 0
              then show ?thesis using notin nroot by simp
            next
              case (Suc j')
              then have "j' < k" using \<open>j < Suc k\<close> by simp
              with k(4) show ?thesis using Suc by (simp add: funpow_swap1)
            qed
          qed
          moreover have "q = (truncate ^^ Suc k) p" using k(2) by (simp add: funpow_swap1)
          moreover have "i + Suc k < 9" using k(1) by simp
          ultimately show ?R using k(3) by blast
        next
          assume ?R
          then obtain k where k: "i + k < 9" "q = (truncate ^^ k) p" "q \<in> menu_pathnames ctx"
            "\<forall>j<k. (truncate ^^ j) p \<notin> menu_pathnames ctx \<and> (truncate ^^ Suc j) p \<noteq> ''/''"
            by blast
          show ?L
          proof (cases k)
            case 0
            with k notin show ?thesis by simp
          next
            case (Suc k')
            have "\<forall>j<k'. (truncate ^^ j) (truncate p) \<notin> menu_pathnames ctx \<and> (truncate ^^ Suc j) (truncate p) \<noteq> ''/''"
            proof (intro allI impI)
              fix j assume "j < k'"
              then have "Suc j < k" using Suc by simp
              with k(4) have "(truncate ^^ Suc j) p \<notin> menu_pathnames ctx \<and> (truncate ^^ Suc (Suc j)) p \<noteq> ''/''"
                by blast
              then show "(truncate ^^ j) (truncate p) \<notin> menu_pathnames ctx \<and> (truncate ^^ Suc j) (truncate p) \<noteq> ''/''"
                by (simp add: funpow_swap1)
            qed
            moreover have "q = (truncate ^^ k') (truncate p)" using k(2) Suc by (simp add: funpow_swap1)
            moreover have "i + 1 + k' < 9" using k(1) Suc by simp
            ultimately show ?thesis using k(3) by blast
          qed
        qed
        with l ih show ?thesis by simp
      qed
    qed
  qed
qed

text \<open>
  The resolver as the specification words it: truncate, then look the truncated pathname
  up, at most nine times, and give up when a truncation yields the root.
\<close>

fun truncate_then_check :: "build_context \<Rightarrow> nat \<Rightarrow> string \<Rightarrow> string option" where
  "truncate_then_check ctx 0 pathname = None"
| "truncate_then_check ctx (Suc budget) pathname =
     (let truncated = truncate pathname
      in if truncated = ''/'' then None
         else if truncated \<in> menu_pathnames ctx then Some truncated
         else truncate_then_check ctx budget truncated)"

definition menus_a :: build_context where
  "menus_a = \<lparr>routes = [], menus = [\<lparr>menu_pathname = ''/a'', menu_items = None\<rparr>]\<rparr>"

lemma truncate_abc: "truncate ''/a/b/c'' = ''/a/b''" "truncate ''/a/b'' = ''/a''"
  by (simp_all add: truncate_def)

text \<open>
  C7 (as amended). \<open>getMenuPathname\<close> looks the page's own pathname up first and then
  the pathname after each truncation of its last \<open>/\<close>-separated segment: it returns \<open>q\<close>
  exactly when \<open>q\<close> is the pathname after \<open>k\<close> truncations for some \<open>k\<close> below 9 (so
  after at most 8 truncations), \<open>q\<close> is the pathname of a menu section, and for every
  \<open>j\<close> below \<open>k\<close> the pathname after \<open>j\<close> truncations is no menu section and the next
  truncation does not yield the root \<open>/\<close>; otherwise it returns no section. The
  \<open>index\<close> binding holds \<open>{path: q}\<close>, or \<open>{path: undefined}\<close>.
\<close>

theorem getMenuPathname_nearest:
  "(getMenuPathname ctx pathname = Some q \<longleftrightarrow>
      (\<exists>k<9. q = (truncate ^^ k) pathname \<and> q \<in> menu_pathnames ctx \<and>
         (\<forall>j<k. (truncate ^^ j) pathname \<notin> menu_pathnames ctx \<and>
                (truncate ^^ Suc j) pathname \<noteq> ''/'')))
   \<and> exportPageIndex ctx mdast (getMenuPathname ctx pathname) =
       Root (MdxjsEsm ''index'' (JObject [(''path'', path_value (getMenuPathname ctx pathname))])
             # root_children mdast)"
  by (simp add: getMenuPathname_def getMenuPathname_from_iff exportPageIndex_def createExport_def)

text \<open>
  The pathname \<open>/a/b/c\<close> with a menu table that holds only \<open>/a\<close>: two truncations,
  and the exported path is \<open>/a\<close>.
\<close>

theorem getMenuPathname_nearest_witness:
  "getMenuPathname menus_a ''/a/b/c'' = Some ''/a'' \<and>
   exportPageIndex menus_a (Root []) (getMenuPathname menus_a ''/a/b/c'') =
     Root [MdxjsEsm ''index'' (JObject [(''path'', JString ''/a'')])]"
proof -
  have t2: "(truncate ^^ 2) ''/a/b/c'' = ''/a''"
    by (simp add: numeral_2_eq_2 truncate_abc)
  have m: "menu_pathnames menus_a = {''/a''}"
    by (simp add: menu_pathnames_def menus_a_def)
  have before: "\<forall>j<2. (truncate ^^ j) ''/a/b/c'' \<notin> menu_pathnames menus_a \<and>
                      (truncate ^^ Suc j) ''/a/b/c'' \<noteq> ''/''"
  proof (intro allI impI)
    fix j :: nat assume "j < 2"
    then have "j = 0 \<or> j = 1" by auto
    then show "(truncate ^^ j) ''/a/b/c'' \<notin> menu_pathnames menus_a \<and>
               (truncate ^^ Suc j) ''/a/b/c'' \<noteq> ''/''"
      by (auto simp: m truncate_abc)
  qed
  have ex: "\<exists>k<9. ''/a'' = (truncate ^^ k) ''/a/b/c'' \<and> ''/a'' \<in> menu_pathnames menus_a \<and>
         (\<forall>j<k. (truncate ^^ j) ''/a/b/c'' \<notin> menu_pathnames menus_a \<and>
                (truncate ^^ Suc j) ''/a/b/c'' \<noteq> ''/'')"
    using t2 m before by (intro exI[of _ 2]) simp
  have found: "getMenuPathname menus_a ''/a/b/c'' = Some ''/a''"
    using getMenuPathname_nearest[of menus_a "''/a/b/c''" "''/a''" "Root []"] ex by blast
  moreover have "exportPageIndex menus_a (Root []) (getMenuPathname menus_a ''/a/b/c'') =
     Root [MdxjsEsm ''index'' (JObject [(''path'', JString ''/a'')])]"
    using getMenuPathname_nearest[of menus_a "''/a/b/c''" "''/a''" "Root []"] found
    by (simp add: path_value_def)
  ultimately show ?thesis by simp
qed

text \<open>
  C7 as stated fails twice. A page whose own pathname is a menu section gets that
  section, with no truncation at all; and a menu section nine truncations up is not found,
  because the ninth truncation is never looked up.
\<close>

theorem getMenuPathname_checks_before_truncating:
  "getMenuPathname menus_a ''/a'' = Some ''/a'' \<and>
   truncate_then_check menus_a 9 ''/a'' = None \<and>
   getMenuPathname menus_a ''/a/1/2/3/4/5/6/7/8/9'' = None \<and>
   truncate_then_check menus_a 9 ''/a/1/2/3/4/5/6/7/8/9'' = Some ''/a''"
  by code_simp

section \<open>Properties of the Export Injector and the pipeline\<close>

text \<open>
  The link pass throws only where \<^verbatim>\<open>.trim()\<close> is called on a target that is no string;
  once the target is a local string, the properties object and the string are there for
  \<^verbatim>\<open>substring\<close>.
\<close>

lemma href_or_empty_nonempty:
  "href_or_empty props = Inr raw \<Longrightarrow> raw \<noteq> [] \<Longrightarrow>
     \<exists>ps. props = Some ps \<and> map_of ps ''href'' = Some (PStr raw)"
  by (auto simp: href_or_empty_def isTruthy_def split: option.splits if_splits prop_value.splits)

lemma cut_href_string:
  "props = Some ps \<Longrightarrow> map_of ps ''href'' = Some (PStr raw) \<Longrightarrow> \<exists>props'. cut_href props n = Inr props'"
  by (simp add: cut_href_def)

lemma links_visitor_total:
  assumes "toLowerCase tagName = ''a'' \<longrightarrow> \<not> isl (href_or_empty props)"
  shows "\<exists>r. updateContentLinks_visitor env sourcePath ws tagName props kids = Inr r"
proof (cases "toLowerCase tagName = ''a''")
  case False
  then show ?thesis by (simp add: updateContentLinks_visitor_def)
next
  case True
  with assms obtain raw where raw: "href_or_empty props = Inr raw"
    by (cases "href_or_empty props") auto
  show ?thesis
  proof (cases "isLocalHref (trim raw)")
    case False
    with True raw show ?thesis by (simp add: updateContentLinks_visitor_def Let_def)
  next
    case local: True
    then have "raw \<noteq> []" by (auto simp: isLocalHref_def)
    from href_or_empty_nonempty[OF raw this] obtain ps where
      ps: "props = Some ps" "map_of ps ''href'' = Some (PStr raw)" by blast
    from cut_href_string[OF ps] have c: "\<And>n. \<exists>props'. cut_href props n = Inr props'" by blast
    from c[of "int (length (trim raw)) - 4"] c[of "int (length (trim raw)) - 3"]
    show ?thesis using True raw local
      by (auto simp: updateContentLinks_visitor_def Let_def)
  qed
qed

text \<open>
  A tree in which the link pass finds a string to trim at every anchor: the target is
  absent, falsy or a string.
\<close>

definition hrefs_are_strings :: "root \<Rightarrow> bool" where
  "hrefs_are_strings mdast =
     list_all (\<lambda>el. toLowerCase (fst el) \<noteq> ''a'' \<or> \<not> isl (href_or_empty (fst (snd el))))
       (elements mdast)"

lemma updateContentLinks_total:
  assumes "hrefs_are_strings mdast"
  shows "\<exists>mdast' warnings. updateContentLinks env mdast sourcePath = Inr (mdast', warnings)"
proof -
  have "\<exists>r. visit_nodes (updateContentLinks_visitor env sourcePath) [] (root_children mdast) = Inr r"
  proof (rule visit_total(2))
    fix s el assume "el \<in> set (elements_nodes (root_children mdast))"
    with assms have "toLowerCase (fst el) = ''a'' \<longrightarrow> \<not> isl (href_or_empty (fst (snd el)))"
      by (auto simp: hrefs_are_strings_def list_all_iff elements_def)
    from links_visitor_total[OF this]
    show "\<exists>r. updateContentLinks_visitor env sourcePath s (fst el) (fst (snd el)) (snd (snd el)) = Inr r" .
  qed
  then show ?thesis
    by (auto simp: updateContentLinks_def visit_def split: sum.splits)
qed

lemma createExport_children [simp]:
  "root_children (createExport mdast name v) = MdxjsEsm name v # root_children mdast"
  by (simp add: createExport_def)

lemma exportBreadcrumbs_children:
  "\<exists>v. exportBreadcrumbs ctx mdast pathname menuPathname = Root (MdxjsEsm ''breadcrumbs'' v # root_children mdast)"
  by (auto simp: exportBreadcrumbs_def createExport_def split: option.splits)

lemma exportPageAttributes_children:
  "\<exists>v. exportPageAttributes ctx mdast pathname = Root (MdxjsEsm ''attributes'' v # root_children mdast)"
  by (simp add: exportPageAttributes_def createExport_def Let_def)

lemma exportPageIndex_children:
  "\<exists>v. exportPageIndex ctx mdast indexPathname = Root (MdxjsEsm ''index'' v # root_children mdast)"
  by (simp add: exportPageIndex_def createExport_def)

lemma rehypePage_bindings:
  assumes "rehypePage ctx getPagePathname env slugs ast vfile_path = Inr (mdast', slugs', warnings)"
  shows "\<exists>v1 v2 v3 v4 rest mdast1.
           mdast' = Root (MdxjsEsm ''index'' v1 # MdxjsEsm ''breadcrumbs'' v2 #
                          MdxjsEsm ''attributes'' v3 # MdxjsEsm ''headings'' v4 # rest) \<and>
           updateContentLinks env ast vfile_path = Inr (mdast1, warnings) \<and>
           exportContentHeadings slugs mdast1 = Inr (slugs', Root (MdxjsEsm ''headings'' v4 # rest))"
proof -
  from assms obtain mdast1 mdast2 where
    l: "updateContentLinks env ast vfile_path = Inr (mdast1, warnings)" and
    h: "exportContentHeadings slugs mdast1 = Inr (slugs', mdast2)" and
    m: "mdast' = exportPageIndex ctx
                   (exportBreadcrumbs ctx
                      (exportPageAttributes ctx mdast2 (getPagePathname vfile_path))
                      (getPagePathname vfile_path) (getMenuPathname ctx (getPagePathname vfile_path)))
                   (getMenuPathname ctx (getPagePathname vfile_path))"
    by (auto simp: rehypePage_def Let_def split: sum.splits)
  from exportContentHeadings_run[of slugs mdast1] h obtain v4 rest where
    m2: "mdast2 = Root (MdxjsEsm ''headings'' v4 # rest)" by auto
  obtain v3 where a: "exportPageAttributes ctx mdast2 (getPagePathname vfile_path) =
      Root (MdxjsEsm ''attributes'' v3 # root_children mdast2)"
    using exportPageAttributes_children by blast
  obtain v2 where b: "exportBreadcrumbs ctx
                      (exportPageAttributes ctx mdast2 (getPagePathname vfile_path))
                      (getPagePathname vfile_path) (getMenuPathname ctx (getPagePathname vfile_path)) =
      Root (MdxjsEsm ''breadcrumbs'' v2 # root_children (exportPageAttributes ctx mdast2 (getPagePathname vfile_path)))"
    using exportBreadcrumbs_children by blast
  obtain v1 where i: "mdast' = Root (MdxjsEsm ''index'' v1 # root_children (exportBreadcrumbs ctx
                      (exportPageAttributes ctx mdast2 (getPagePathname vfile_path))
                      (getPagePathname vfile_path) (getMenuPathname ctx (getPagePathname vfile_path))))"
    unfolding m using exportPageIndex_children by blast
  from i b a m2 l h show ?thesis by simp
qed

lemma rehypePage_total:
  assumes "hrefs_are_strings ast"
  shows "\<exists>mdast' slugs' warnings.
           rehypePage ctx getPagePathname env slugs ast vfile_path = Inr (mdast', slugs', warnings)"
proof -
  from updateContentLinks_total[OF assms, of env vfile_path] obtain mdast1 warnings where
    l: "updateContentLinks env ast vfile_path = Inr (mdast1, warnings)" by blast
  from exportContentHeadings_run[of slugs mdast1] obtain slugs' mdast2 where
    h: "exportContentHeadings slugs mdast1 = Inr (slugs', mdast2)" by blast
  from l h show ?thesis by (simp add: rehypePage_def Let_def)
qed

text \<open>
  Conversely, the link pass throws at an anchor whose target is truthy and no string, and
  it throws nothing else; a throw at any element ends the walk with that exception.
\<close>

lemma href_or_empty_throws_iff:
  "isl (href_or_empty props) =
     (\<exists>ps v. props = Some ps \<and> map_of ps ''href'' = Some v \<and> isTruthy v \<and> (\<forall>s. v \<noteq> PStr s))"
  by (auto simp: href_or_empty_def split: option.splits prop_value.splits)

lemma href_or_empty_error:
  "href_or_empty props = Inl e \<Longrightarrow> e = TypeError ''trim is not a function''"
  by (auto simp: href_or_empty_def split: option.splits prop_value.splits if_splits)

lemma links_visitor_throws:
  assumes "toLowerCase tagName = ''a''" and "isl (href_or_empty props)"
  shows "updateContentLinks_visitor env sourcePath ws tagName props kids =
           Inl (TypeError ''trim is not a function'')"
proof -
  from assms(2) obtain e where e: "href_or_empty props = Inl e"
    by (cases "href_or_empty props") auto
  with href_or_empty_error have "e = TypeError ''trim is not a function''" by blast
  with e assms(1) show ?thesis by (simp add: updateContentLinks_visitor_def)
qed

lemma links_visitor_error:
  assumes "updateContentLinks_visitor env sourcePath ws tagName props kids = Inl e"
  shows "e = TypeError ''trim is not a function''"
proof (cases "toLowerCase tagName = ''a'' \<longrightarrow> \<not> isl (href_or_empty props)")
  case True
  from links_visitor_total[OF True, of env sourcePath ws kids] assms show ?thesis by auto
next
  case False
  then have "toLowerCase tagName = ''a''" "isl (href_or_empty props)" by auto
  from links_visitor_throws[OF this, of env sourcePath ws kids] assms show ?thesis by simp
qed

lemma visit_error:
  "visit_node f s n = Inl e \<Longrightarrow>
     \<exists>s' el. el \<in> set (elements_node n) \<and> f s' (fst el) (fst (snd el)) (snd (snd el)) = Inl e"
  "visit_nodes f s ns = Inl e \<Longrightarrow>
     \<exists>s' el. el \<in> set (elements_nodes ns) \<and> f s' (fst el) (fst (snd el)) (snd (snd el)) = Inl e"
proof (induction f s n and f s ns rule: visit_node_visit_nodes.induct)
  case (1 visitor s tagName props kids)
  show ?case
  proof (cases "visitor s tagName props kids")
    case (Inl e')
    with "1.prems" have "e' = e" by simp
    with Inl show ?thesis by (intro exI[of _ s] exI[of _ "(tagName, props, kids)"]) simp
  next
    case (Inr r)
    obtain s1 p1 where r: "r = (s1, p1)" by (cases r) auto
    from "1.prems" Inr r have "visit_nodes visitor s1 kids = Inl e"
      by (auto split: sum.splits)
    from "1.IH"[OF Inr[unfolded r] refl this] show ?thesis by auto
  qed
next
  case (2 visitor s ty kids)
  from "2.prems" have "visit_nodes visitor s kids = Inl e" by (auto split: sum.splits)
  from "2.IH"[OF this] show ?case by simp
next
  case (3 visitor s v)
  then show ?case by simp
next
  case (4 visitor s ty v)
  then show ?case by simp
next
  case (5 visitor s name v)
  then show ?case by simp
next
  case (6 visitor s)
  then show ?case by simp
next
  case (7 visitor s n ns)
  show ?case
  proof (cases "visit_node visitor s n")
    case (Inl e')
    with "7.prems" have "e' = e" by simp
    with "7.IH"(1) Inl show ?thesis by auto
  next
    case (Inr r)
    obtain s1 n1 where r: "r = (s1, n1)" by (cases r) auto
    from "7.prems" Inr r have "visit_nodes visitor s1 ns = Inl e"
      by (auto split: sum.splits)
    from "7.IH"(2)[OF Inr[unfolded r] refl this] show ?thesis by auto
  qed
qed

lemma updateContentLinks_throws:
  assumes "\<not> hrefs_are_strings mdast"
  shows "updateContentLinks env mdast sourcePath = Inl (TypeError ''trim is not a function'')"
proof (cases "updateContentLinks env mdast sourcePath")
  case (Inl e)
  then have "visit_nodes (updateContentLinks_visitor env sourcePath) [] (root_children mdast) = Inl e"
    by (auto simp: updateContentLinks_def visit_def split: sum.splits)
  from visit_error(2)[OF this] links_visitor_error have "e = TypeError ''trim is not a function''"
    by blast
  with Inl show ?thesis by simp
next
  case (Inr r)
  obtain mdast' warnings where r: "r = (mdast', warnings)" by (cases r) auto
  from assms obtain el where el: "el \<in> set (elements mdast)" "toLowerCase (fst el) = ''a''"
    "isl (href_or_empty (fst (snd el)))"
    by (auto simp: hrefs_are_strings_def list_all_iff)
  from el(1) obtain i where i: "i < length (elements mdast)" "elements mdast ! i = el"
    by (auto simp: in_set_conv_nth)
  from updateContentLinks_elements[OF Inr[unfolded r]] i obtain w p' where
    "updateContentLinks_visitor env sourcePath [] (fst el) (fst (snd el)) (snd (snd el)) = Inr (w, p')"
    by auto
  with links_visitor_throws[OF el(2,3), of env sourcePath "[]" "snd (snd el)"] show ?thesis by simp
qed

lemma rehypePage_throws:
  assumes "\<not> hrefs_are_strings ast"
  shows "rehypePage ctx getPagePathname env slugs ast vfile_path =
           Inl (TypeError ''trim is not a function'')"
  using updateContentLinks_throws[OF assms, of env vfile_path]
  by (simp add: rehypePage_def Let_def)

text \<open>
  C8 (as amended). \<open>createExport\<close> puts the binding in front of the tree's children, so
  two injections leave the later one first. For every document in which each anchor's
  target is absent, falsy or a string, \<open>rehypePage\<close> returns a tree that starts with the
  bindings \<open>index\<close>, \<open>breadcrumbs\<close>, \<open>attributes\<close>, \<open>headings\<close>, in this order,
  followed by the document's own nodes (the same elements, with the same tag names, in the
  same order); and whenever \<open>rehypePage\<close> returns a tree, it is of that form. For every
  other document, one with an anchor whose target is truthy and no string, \<open>rehypePage\<close>
  ends with the exception of the link pass and returns no tree, so nothing is injected.
\<close>

theorem bindings_at_front:
  "createExport (createExport mdast name1 v1) name2 v2 =
     Root (MdxjsEsm name2 v2 # MdxjsEsm name1 v1 # root_children mdast) \<and>
   (hrefs_are_strings ast \<longrightarrow>
      (\<exists>v1 v2 v3 v4 rest slugs' warnings.
         rehypePage ctx getPagePathname env slugs ast vfile_path =
           Inr (Root (MdxjsEsm ''index'' v1 # MdxjsEsm ''breadcrumbs'' v2 #
                      MdxjsEsm ''attributes'' v3 # MdxjsEsm ''headings'' v4 # rest),
                slugs', warnings) \<and>
         map fst (elements_nodes rest) = map fst (elements ast))) \<and>
   (\<forall>mdast' slugs' warnings.
      rehypePage ctx getPagePathname env slugs ast vfile_path = Inr (mdast', slugs', warnings) \<longrightarrow>
      (\<exists>v1 v2 v3 v4 rest.
         mdast' = Root (MdxjsEsm ''index'' v1 # MdxjsEsm ''breadcrumbs'' v2 #
                        MdxjsEsm ''attributes'' v3 # MdxjsEsm ''headings'' v4 # rest) \<and>
         map fst (elements_nodes rest) = map fst (elements ast))) \<and>
   (\<not> hrefs_are_strings ast \<longrightarrow>
      rehypePage ctx getPagePathname env slugs ast vfile_path =
        Inl (TypeError ''trim is not a function''))"
proof -
  have tags: "map fst (elements_nodes rest) = map fst (elements ast)"
    if r: "rehypePage ctx getPagePathname env slugs ast vfile_path = Inr (mdast', slugs', warnings)"
      and m: "mdast' = Root (MdxjsEsm ''index'' v1 # MdxjsEsm ''breadcrumbs'' v2 #
                        MdxjsEsm ''attributes'' v3 # MdxjsEsm ''headings'' v4 # rest)"
    for mdast' slugs' warnings v1 v2 v3 v4 rest
  proof -
    from rehypePage_bindings[OF r] m obtain mdast1 where
      l: "updateContentLinks env ast vfile_path = Inr (mdast1, warnings)" and
      h: "exportContentHeadings slugs mdast1 = Inr (slugs', Root (MdxjsEsm ''headings'' v4 # rest))"
      by auto
    from exportContentHeadings_run[of slugs mdast1] h
    have "map fst (elements_nodes rest) = map fst (elements mdast1)" by auto
    moreover from updateContentLinks_elements[OF l] have "map fst (elements mdast1) = map fst (elements ast)"
      by (auto intro: nth_equalityI)
    ultimately show ?thesis by simp
  qed
  have third: "\<forall>mdast' slugs' warnings.
      rehypePage ctx getPagePathname env slugs ast vfile_path = Inr (mdast', slugs', warnings) \<longrightarrow>
      (\<exists>v1 v2 v3 v4 rest.
         mdast' = Root (MdxjsEsm ''index'' v1 # MdxjsEsm ''breadcrumbs'' v2 #
                        MdxjsEsm ''attributes'' v3 # MdxjsEsm ''headings'' v4 # rest) \<and>
         map fst (elements_nodes rest) = map fst (elements ast))"
  proof (intro allI impI)
    fix mdast' slugs' warnings
    assume r: "rehypePage ctx getPagePathname env slugs ast vfile_path = Inr (mdast', slugs', warnings)"
    from rehypePage_bindings[OF r] obtain v1 v2 v3 v4 rest where
      m: "mdast' = Root (MdxjsEsm ''index'' v1 # MdxjsEsm ''breadcrumbs'' v2 #
                        MdxjsEsm ''attributes'' v3 # MdxjsEsm ''headings'' v4 # rest)"
      by blast
    from tags[OF r m] m
    show "\<exists>v1 v2 v3 v4 rest.
         mdast' = Root (MdxjsEsm ''index'' v1 # MdxjsEsm ''breadcrumbs'' v2 #
                        MdxjsEsm ''attributes'' v3 # MdxjsEsm ''headings'' v4 # rest) \<and>
         map fst (elements_nodes rest) = map fst (elements ast)"
      by blast
  qed
  have second: "hrefs_are_strings ast \<longrightarrow>
      (\<exists>v1 v2 v3 v4 rest slugs' warnings.
         rehypePage ctx getPagePathname env slugs ast vfile_path =
           Inr (Root (MdxjsEsm ''index'' v1 # MdxjsEsm ''breadcrumbs'' v2 #
                      MdxjsEsm ''attributes'' v3 # MdxjsEsm ''headings'' v4 # rest),
                slugs', warnings) \<and>
         map fst (elements_nodes rest) = map fst (elements ast))"
  proof
    assume "hrefs_are_strings ast"
    from rehypePage_total[OF this, of ctx getPagePathname env slugs vfile_path]
    obtain mdast' slugs' warnings where
      r: "rehypePage ctx getPagePathname env slugs ast vfile_path = Inr (mdast', slugs', warnings)"
      by blast
    with third r show "\<exists>v1 v2 v3 v4 rest slugs' warnings.
         rehypePage ctx getPagePathname env slugs ast vfile_path =
           Inr (Root (MdxjsEsm ''index'' v1 # MdxjsEsm ''breadcrumbs'' v2 #
                      MdxjsEsm ''attributes'' v3 # MdxjsEsm ''headings'' v4 # rest),
                slugs', warnings) \<and>
         map fst (elements_nodes rest) = map fst (elements ast)"
      by metis
  qed
  have first: "createExport (createExport mdast name1 v1) name2 v2 =
     Root (MdxjsEsm name2 v2 # MdxjsEsm name1 v1 # root_children mdast)"
    by (simp add: createExport_def)
  have fourth: "\<not> hrefs_are_strings ast \<longrightarrow>
      rehypePage ctx getPagePathname env slugs ast vfile_path =
        Inl (TypeError ''trim is not a function'')"
    using rehypePage_throws by blast
  from first second third fourth show ?thesis by blast
qed

text \<open>
  A page with a fragment link and a title, and a page with an anchor whose target is the
  boolean \<^verbatim>\<open>true\<close>.
\<close>

definition doc_page :: root where
  "doc_page = Root [Element ''p'' None [Element ''a'' (Some [(''href'', PStr ''#top'')]) [Text ''up'']],
                    Element ''h1'' (Some []) [Text ''Title'']]"

definition doc_flag :: root where
  "doc_flag = Root [Element ''a'' (Some [(''href'', PBool True)]) [Text ''x'']]"

lemma doc_page_hrefs: "hrefs_are_strings doc_page"
  by code_simp

lemma doc_flag_hrefs: "\<not> hrefs_are_strings doc_flag"
  by code_simp

lemma doc_page_eval:
  "rehypePage menus_a (\<lambda>path. ''/a/b'') env_none [] doc_page ''/docs/b.mdx'' =
     Inr (Root [MdxjsEsm ''index'' (JObject [(''path'', JString ''/a'')]),
                MdxjsEsm ''breadcrumbs'' (JArray []),
                MdxjsEsm ''attributes'' (JObject []),
                MdxjsEsm ''headings''
                  (JArray [JObject [(''text'', JString ''Title''), (''id'', JString ''title''),
                                    (''level'', JNumber 1)]]),
                Element ''p'' None [Element ''a'' (Some [(''href'', PStr ''#top'')]) [Text ''up'']],
                Element ''h1'' (Some [(''id'', PStr ''title'')]) [Text ''Title'']],
          [(''title'', 0)], [])"
  by code_simp

text \<open>
  C8 at the page with the fragment link, whose pathname is \<open>/a/b\<close>, and at the page
  with the boolean target.
\<close>

theorem bindings_at_front_witness:
  "hrefs_are_strings doc_page \<and>
   (\<exists>v1 v2 v3 v4 rest slugs' warnings.
      rehypePage menus_a (\<lambda>path. ''/a/b'') env_none [] doc_page ''/docs/b.mdx'' =
        Inr (Root (MdxjsEsm ''index'' v1 # MdxjsEsm ''breadcrumbs'' v2 #
                   MdxjsEsm ''attributes'' v3 # MdxjsEsm ''headings'' v4 # rest),
             slugs', warnings) \<and>
      map fst (elements_nodes rest) = map fst (elements doc_page)) \<and>
   rehypePage menus_a (\<lambda>path. ''/a/b'') env_none [] doc_page ''/docs/b.mdx'' =
     Inr (Root [MdxjsEsm ''index'' (JObject [(''path'', JString ''/a'')]),
                MdxjsEsm ''breadcrumbs'' (JArray []),
                MdxjsEsm ''attributes'' (JObject []),
                MdxjsEsm ''headings''
                  (JArray [JObject [(''text'', JString ''Title''), (''id'', JString ''title''),
                                    (''level'', JNumber 1)]]),
                Element ''p'' None [Element ''a'' (Some [(''href'', PStr ''#top'')]) [Text ''up'']],
                Element ''h1'' (Some [(''id'', PStr ''title'')]) [Text ''Title'']],
          [(''title'', 0)], []) \<and>
   \<not> hrefs_are_strings doc_flag \<and>
   rehypePage menus_a (\<lambda>path. ''/a/b'') env_none [] doc_flag ''/docs/b.mdx'' =
     Inl (TypeError ''trim is not a function'')"
  using bindings_at_front[of "Root []" "''a''" JUndefined "''b''" JUndefined doc_page menus_a
      "\<lambda>path. ''/a/b''" env_none "[]" "''/docs/b.mdx''"]
    bindings_at_front[of "Root []" "''a''" JUndefined "''b''" JUndefined doc_flag menus_a
      "\<lambda>path. ''/a/b''" env_none "[]" "''/docs/b.mdx''"]
    doc_page_hrefs doc_flag_hrefs doc_page_eval
  by blast

text \<open>
  C8 as stated fails for the anchor with the boolean target: the link pass throws, no
  later stage runs, and nothing is injected.
\<close>

theorem non_string_href_throws:
  "rehypePage menus_a (\<lambda>path. ''/a/b'') env_none [] doc_flag ''/docs/b.mdx'' =
     Inl (TypeError ''trim is not a function'')"
  by code_simp

end
